theory Spec2Isabelle
  imports Complex_Main "HOL-Library.AList"
begin

unbundle bit_operations_syntax

section \<open>Common data\<close>

text \<open>
  Python exceptions are values. \<open>ValueError\<close> carries the message of the raise;
  \<open>IndexError\<close> is an out-of-range read of a list or an array, \<open>OverflowError\<close> is
  \<open>int(-inf)\<close> (from \<open>int(np.log2(0))\<close>), \<open>AttributeError\<close> is a call of a method
  the object does not have.
\<close>

datatype error = ValueError string | IndexError | OverflowError | AttributeError

text \<open>
  State vectors are numpy arrays of complex numbers: lists of \<open>complex\<close>. Floating-point
  numbers are modelled by the reals they approximate; rounding is outside the model.
\<close>

type_synonym cvec = "complex list"
type_synonym cmat = "complex list list"

text \<open>Sequencing of two steps: an exception of the first step ends the computation.\<close>

definition and_then :: "error + 'a \<Rightarrow> ('a \<Rightarrow> error + 'b) \<Rightarrow> error + 'b" where
  "and_then r f = (case r of Inl e \<Rightarrow> Inl e | Inr x \<Rightarrow> f x)"

section \<open>quantum_operations.py: gates and circuits\<close>

datatype GateType =
    PAULI_X | PAULI_Y | PAULI_Z | HADAMARD | CNOT | PHASE | T_GATE | QFT
  | GROVER_DIFFUSER | CUSTOM

text \<open>
  \<open>QuantumGate\<close>: the target qubits are Python ints (a list of \<open>int\<close>, negatives
  included); the parameters are an optional dictionary from names to numbers.
\<close>

record QuantumGate =
  gate_type :: GateType
  qubits :: "int list"
  parameters :: "(string \<times> real) list option"
  matrix :: "cmat option"

record QuantumCircuit =
  num_qubits :: nat
  gates :: "QuantumGate list"
  state_vector :: cvec

text \<open>\<open>QuantumCircuit.__init__\<close>: the state \<open>|0...0>\<close> and no gate.\<close>

definition new_circuit :: "nat \<Rightarrow> QuantumCircuit" where
  "new_circuit n =
     \<lparr>num_qubits = n, gates = [], state_vector = (replicate (2 ^ n) 0)[0 := 1]\<rparr>"

text \<open>
  \<open>QuantumCircuit.add_gate\<close>. Python's \<open>max\<close> of an empty list raises a
  \<open>ValueError\<close> of its own; otherwise the only check is
  \<open>max(gate.qubits) >= self.num_qubits\<close>.
\<close>

definition add_gate :: "QuantumCircuit \<Rightarrow> QuantumGate \<Rightarrow> error + QuantumCircuit" where
  "add_gate circuit gate =
     (case qubits gate of
        [] \<Rightarrow> Inl (ValueError ''max() arg is an empty sequence'')
      | q # qs \<Rightarrow>
          if fold max qs q \<ge> int (num_qubits circuit)
          then Inl (ValueError ''Gate qubit index exceeds circuit size'')
          else Inr (circuit\<lparr>gates := gates circuit @ [gate]\<rparr>))"

subsection \<open>Gate library\<close>

text \<open>
  \<open>parameters.get(key, default) if parameters else default\<close>: a missing or empty
  dictionary gives the default.
\<close>

definition param_get :: "(string \<times> real) list option \<Rightarrow> string \<Rightarrow> real \<Rightarrow> real" where
  "param_get ps key dflt =
     (case ps of
        None \<Rightarrow> dflt
      | Some kvs \<Rightarrow> (case map_of kvs key of None \<Rightarrow> dflt | Some v \<Rightarrow> v))"

definition eye :: "nat \<Rightarrow> cmat" where
  "eye n = map (\<lambda>i. map (\<lambda>j. if i = j then 1 else 0) [0..<n]) [0..<n]"

definition qft_matrix :: "nat \<Rightarrow> cmat" where
  "qft_matrix n =
     (let N = 2 ^ n; omega = exp (2 * \<i> * complex_of_real pi / of_nat N)
      in map (\<lambda>i. map (\<lambda>j. omega ^ (i * j) / complex_of_real (sqrt (real N))) [0..<N]) [0..<N])"

definition grover_diffuser_matrix :: "nat \<Rightarrow> cmat" where
  "grover_diffuser_matrix n =
     (let N = 2 ^ n; s = 1 / sqrt (real N)
      in map (\<lambda>i. map (\<lambda>j. complex_of_real (2 * (s * s) - (if i = j then 1 else 0))) [0..<N])
           [0..<N])"

text \<open>
  \<open>get_gate_matrix\<close>. The cache of the source only memoizes: its keys are
  \<open>"<kind>_<parameters>"\<close>, which never equal a key of the precomputed table, and the
  stored matrix is the one the branches below compute. A kind with no matrix (\<open>CUSTOM\<close>)
  gives \<open>None\<close>. The entry \<open>n_qubits\<close> is an integer in every caller.
\<close>

definition get_gate_matrix :: "GateType \<Rightarrow> (string \<times> real) list option \<Rightarrow> cmat option" where
  "get_gate_matrix gt ps =
     (case gt of
        PHASE \<Rightarrow> Some [[1, 0], [0, exp (\<i> * complex_of_real (param_get ps ''theta'' 0))]]
      | QFT \<Rightarrow> Some (qft_matrix (nat \<lfloor>param_get ps ''n_qubits'' 2\<rfloor>))
      | GROVER_DIFFUSER \<Rightarrow> Some (grover_diffuser_matrix (nat \<lfloor>param_get ps ''n_qubits'' 2\<rfloor>))
      | PAULI_X \<Rightarrow> Some [[0, 1], [1, 0]]
      | PAULI_Y \<Rightarrow> Some [[0, - \<i>], [\<i>, 0]]
      | PAULI_Z \<Rightarrow> Some [[1, 0], [0, - 1]]
      | HADAMARD \<Rightarrow>
          Some [[1 / complex_of_real (sqrt 2), 1 / complex_of_real (sqrt 2)],
                [1 / complex_of_real (sqrt 2), - 1 / complex_of_real (sqrt 2)]]
      | CNOT \<Rightarrow> Some [[1, 0, 0, 0], [0, 1, 0, 0], [0, 0, 0, 1], [0, 0, 1, 0]]
      | T_GATE \<Rightarrow> Some [[1, 0], [0, exp (\<i> * complex_of_real (pi / 4))]]
      | CUSTOM \<Rightarrow> None)"

subsection \<open>Gate applicator\<close>

text \<open>A matrix is the list of its rows, all of one length (a 2-D numpy array).\<close>

definition nrows :: "cmat \<Rightarrow> nat" where
  "nrows A = length A"

definition ncols :: "cmat \<Rightarrow> nat" where
  "ncols A = (case A of [] \<Rightarrow> 0 | r # _ \<Rightarrow> length r)"

text \<open>The Kronecker product: entry \<open>(i, j)\<close> is \<open>A[i div r, j div c] * B[i mod r, j mod c]\<close>
  for \<open>B\<close> of shape \<open>(r, c)\<close>.\<close>

definition kron :: "cmat \<Rightarrow> cmat \<Rightarrow> cmat" where
  "kron A B =
     map (\<lambda>i. map (\<lambda>j. A ! (i div nrows B) ! (j div ncols B) * B ! (i mod nrows B) ! (j mod ncols B))
                 [0..<ncols A * ncols B])
       [0..<nrows A * nrows B]"

definition tensor_product_gates :: "cmat list \<Rightarrow> cmat" where
  "tensor_product_gates gs =
     (case gs of
        [] \<Rightarrow> eye 1
      | g # rest \<Rightarrow> fold (\<lambda>gate result. kron result gate) rest g)"

text \<open>\<open>M @ v\<close>: numpy raises a \<open>ValueError\<close> when the shapes do not match.\<close>

definition matvec :: "cmat \<Rightarrow> cvec \<Rightarrow> error + cvec" where
  "matvec M v =
     (if list_all (\<lambda>row. length row = length v) M \<and> M \<noteq> []
      then Inr (map (\<lambda>row. sum_list (map2 (*) row v)) M)
      else Inl (ValueError ''matmul: shape mismatch''))"

definition single_qubit_full_matrix :: "cmat \<Rightarrow> int \<Rightarrow> nat \<Rightarrow> cmat" where
  "single_qubit_full_matrix gate target n =
     tensor_product_gates (map (\<lambda>i. if int i = target then gate else eye 2) [0..<n])"

text \<open>
  \<open>_multi_qubit_full_matrix\<close>. \<open>i_bits[targets[k]]\<close> is a Python list read: a negative
  index counts from the end, an index outside \<open>[-n, n)\<close> raises \<open>IndexError\<close> (the pair
  \<open>i = j = 0\<close> always reaches the read). \<open>gate[i_target, j_target]\<close> raises when an index
  is outside the gate's shape; every \<open>i_target\<close> is used as a row and as a column.
\<close>

definition multi_qubit_full_matrix :: "cmat \<Rightarrow> int list \<Rightarrow> nat \<Rightarrow> error + cmat" where
  "multi_qubit_full_matrix gate targets n =
     (let N = 2 ^ n;
          pos = map (\<lambda>t. nat (if t < 0 then int n + t else t)) targets;
          sub = (\<lambda>i. sum_list (map (\<lambda>k. (if bit i (pos ! k) then 1 else 0) * 2 ^ k)
                          [0..<length targets]));
          same = (\<lambda>i j. list_all (\<lambda>k. int k \<in> set targets \<or> bit i k = bit j k) [0..<n])
      in if \<not> list_all (\<lambda>t. - int n \<le> t \<and> t < int n) targets then Inl IndexError
         else if \<not> list_all (\<lambda>i. sub i < nrows gate \<and> sub i < ncols gate) [0..<N]
         then Inl IndexError
         else Inr (map (\<lambda>i. map (\<lambda>j. if same i j then gate ! sub i ! sub j
                                        else if i = j then 1 else 0) [0..<N]) [0..<N]))"

text \<open>
  \<open>_two_qubit_full_matrix\<close>. In the adjacent case the loop appends the gate at the
  smaller target, nothing at the larger one (the \<open>elif\<close>; the \<open>i += 1\<close> has no effect on
  a Python \<open>for\<close>) and \<open>eye(2)\<close> elsewhere.
\<close>

definition two_qubit_full_matrix :: "cmat \<Rightarrow> int list \<Rightarrow> nat \<Rightarrow> error + cmat" where
  "two_qubit_full_matrix gate targets n =
     (if \<bar>targets ! 0 - targets ! 1\<bar> = 1
      then Inr (tensor_product_gates
             (concat (map (\<lambda>i. if int i = min (targets ! 0) (targets ! 1) then [gate]
                               else if int i = max (targets ! 0) (targets ! 1) then []
                               else [eye 2]) [0..<n])))
      else multi_qubit_full_matrix gate targets n)"

definition build_full_gate_matrix :: "cmat \<Rightarrow> int list \<Rightarrow> nat \<Rightarrow> error + cmat" where
  "build_full_gate_matrix gate_matrix target_qubits n =
     (if length target_qubits = 1
      then Inr (single_qubit_full_matrix gate_matrix (target_qubits ! 0) n)
      else if length target_qubits = 2 then two_qubit_full_matrix gate_matrix target_qubits n
      else multi_qubit_full_matrix gate_matrix target_qubits n)"

text \<open>\<open>apply_gate_to_circuit\<close> stores the new state in the circuit; the model returns the
  circuit.\<close>

definition apply_gate_to_circuit :: "QuantumCircuit \<Rightarrow> QuantumGate \<Rightarrow> error + QuantumCircuit" where
  "apply_gate_to_circuit circuit gate =
     (case get_gate_matrix (gate_type gate) (parameters gate) of
        None \<Rightarrow> Inl (ValueError ''Unknown gate type'')
      | Some gate_matrix \<Rightarrow>
          (case build_full_gate_matrix gate_matrix (qubits gate) (num_qubits circuit) of
             Inl e \<Rightarrow> Inl e
           | Inr full_gate \<Rightarrow>
               (case matvec full_gate (state_vector circuit) of
                  Inl e \<Rightarrow> Inl e
                | Inr v \<Rightarrow> Inr (circuit\<lparr>state_vector := v\<rparr>))))"

text \<open>\<open>np.linalg.norm\<close> of a vector.\<close>

definition vnorm :: "cvec \<Rightarrow> real" where
  "vnorm v = sqrt (sum_list (map (\<lambda>a. (cmod a)\<^sup>2) v))"

subsection \<open>Circuit simulation\<close>

text \<open>The loop \<open>for gate in circuit.gates\<close>; the first raise ends it.\<close>

fun apply_gates :: "QuantumCircuit \<Rightarrow> QuantumGate list \<Rightarrow> error + QuantumCircuit" where
  "apply_gates circuit [] = Inr circuit"
| "apply_gates circuit (g # gs) =
     (case apply_gate_to_circuit circuit g of
        Inl e \<Rightarrow> Inl e
      | Inr circuit' \<Rightarrow> apply_gates circuit' gs)"

text \<open>Python's \<open>format(x, 'b')\<close>: the binary digits of \<open>x\<close>, most significant first,
  \<open>'0'\<close> for zero.\<close>

fun bin_digits :: "nat \<Rightarrow> string" where
  "bin_digits x =
     (if x < 2 then [if x = 0 then CHR ''0'' else CHR ''1'']
      else bin_digits (x div 2) @ [if even x then CHR ''0'' else CHR ''1''])"

text \<open>\<open>format(x, f'0{n}b')\<close>: padded on the left with \<open>'0'\<close> to at least \<open>n\<close> characters.\<close>

definition format_0nb :: "nat \<Rightarrow> nat \<Rightarrow> string" where
  "format_0nb n x = replicate (n - length (bin_digits x)) (CHR ''0'') @ bin_digits x"

text \<open>\<open>counts[key] = counts.get(key, 0) + 1\<close> on a dict.\<close>

definition bump :: "(string \<times> nat) list \<Rightarrow> string \<Rightarrow> (string \<times> nat) list" where
  "bump counts key =
     AList.update key ((case map_of counts key of None \<Rightarrow> 0 | Some c \<Rightarrow> c) + 1) counts"

text \<open>The counting loop over the outcomes, on a dict that starts empty.\<close>

definition count_outcomes :: "nat \<Rightarrow> nat list \<Rightarrow> (string \<times> nat) list" where
  "count_outcomes n outcomes =
     fold (\<lambda>outcome counts. bump counts (format_0nb n outcome)) outcomes []"

record SimulationResult =
  counts :: "(string \<times> nat) list"
  probabilities :: "real list"
  result_state_vector :: cvec
  result_num_qubits :: nat
  num_gates :: nat
  shots :: nat

text \<open>
  \<open>simulate_circuit\<close>. The random draw is an input: \<open>outcomes\<close> is the array that
  \<open>np.random.choice(len(probabilities), size=shots, p=probabilities)\<close> returned, which has
  \<open>shots\<close> entries, each below \<open>len(probabilities)\<close>; \<open>choice\<close> raises a \<open>ValueError\<close>
  when the probabilities do not sum to 1. The tensor decomposition of the \<open>optimize\<close>
  branch only logs a ratio, and the wall-clock time and the Redis cache do not reach the
  histogram; they are outside the model.
\<close>

definition simulate_circuit :: "QuantumCircuit \<Rightarrow> nat \<Rightarrow> nat list \<Rightarrow> error + SimulationResult" where
  "simulate_circuit circuit n_shots outcomes =
     (case apply_gates circuit (gates circuit) of
        Inl e \<Rightarrow> Inl e
      | Inr c \<Rightarrow>
          (let probs = map (\<lambda>a. (cmod a)\<^sup>2) (state_vector c)
           in if sum_list probs \<noteq> 1 then Inl (ValueError ''probabilities do not sum to 1'')
              else Inr \<lparr>counts = count_outcomes (num_qubits c) outcomes,
                        probabilities = probs,
                        result_state_vector = state_vector c,
                        result_num_qubits = num_qubits c,
                        num_gates = length (gates c),
                        shots = n_shots\<rparr>))"

section \<open>error_correction.py: the codes\<close>

datatype ErrorType = BIT_FLIP | PHASE_FLIP | BOTH | MEASUREMENT | DECOHERENCE

datatype CorrectionCode = STEANE_7 | SHOR_9 | SURFACE | COLOR | REPETITION | STABILIZER

record QubitError =
  qubit_id :: nat
  error_type :: ErrorType
  timestamp :: real
  probability :: real
  corrected :: bool

record SyndromeResult =
  syndrome :: "nat list"
  measured_qubits :: "nat list"
  measurement_time :: real
  confidence :: real

subsection \<open>Numeric helpers\<close>

text \<open>
  \<open>np.sqrt\<close> of a real number: NaN (\<open>None\<close>) below zero. A NaN makes every later
  arithmetic result NaN and every comparison false.
\<close>

definition np_sqrt :: "real \<Rightarrow> real option" where
  "np_sqrt x = (if x < 0 then None else Some (sqrt x))"

text \<open>
  \<open>state.conj().T @ M @ state\<close> for a vector of \<open>n\<close> entries and a matrix: numpy raises a
  \<open>ValueError\<close> unless the matrix is \<open>n\<close> by \<open>n\<close>.
\<close>

definition quad_form :: "cvec \<Rightarrow> cmat \<Rightarrow> error + complex" where
  "quad_form state M =
     (let n = length state
      in if length M = n \<and> list_all (\<lambda>row. length row = n) M
         then Inr (sum_list (map (\<lambda>j. sum_list (map (\<lambda>i. cnj (state ! i) * M ! i ! j) [0..<n])
                                        * state ! j) [0..<n]))
         else Inl (ValueError ''matmul: shape mismatch''))"

text \<open>\<open>np.vdot(a, b)\<close>: the sum of \<open>conj(a[i]) * b[i]\<close>; the sizes must agree.\<close>

definition vdot :: "cvec \<Rightarrow> cvec \<Rightarrow> error + complex" where
  "vdot a b =
     (if length a = length b then Inr (sum_list (map2 (\<lambda>x y. cnj x * y) a b))
      else Inl (ValueError ''vdot: size mismatch''))"

text \<open>\<open>np.abs(np.vdot(logical_state, decoded_state))**2\<close>.\<close>

definition fidelity :: "cvec \<Rightarrow> cvec \<Rightarrow> error + real" where
  "fidelity logical_state decoded_state =
     (case vdot logical_state decoded_state of
        Inl e \<Rightarrow> Inl e
      | Inr z \<Rightarrow> Inr ((cmod z)\<^sup>2))"

text \<open>\<open>int(np.log2(n))\<close> for \<open>n \<ge> 1\<close>: the position of the highest set bit.\<close>

fun ilog2 :: "nat \<Rightarrow> nat" where
  "ilog2 n = (if n < 2 then 0 else Suc (ilog2 (n div 2)))"

definition num_qubits_of :: "cvec \<Rightarrow> error + nat" where
  "num_qubits_of state =
     (if length state = 0 then Inl OverflowError else Inr (ilog2 (length state)))"

subsection \<open>Pauli operators on a state vector\<close>

text \<open>
  \<open>_apply_bit_flip\<close> and the X branch of \<open>_apply_pauli_correction\<close> (the same loop):
  entry \<open>i\<close> of the result is entry \<open>i ^ (1 << (N - 1 - qubit))\<close> of the state. A negative
  shift count raises a \<open>ValueError\<close>, a read past the end an \<open>IndexError\<close>.
\<close>

definition apply_bit_flip :: "cvec \<Rightarrow> nat \<Rightarrow> error + cvec" where
  "apply_bit_flip state qubit =
     (case num_qubits_of state of
        Inl e \<Rightarrow> Inl e
      | Inr N \<Rightarrow>
          if N < qubit + 1 then Inl (ValueError ''negative shift count'')
          else if list_all (\<lambda>i. i XOR push_bit (N - 1 - qubit) 1 < length state)
                    [0..<length state]
          then Inr (map (\<lambda>i. state ! (i XOR push_bit (N - 1 - qubit) 1)) [0..<length state])
          else Inl IndexError)"

text \<open>
  \<open>_apply_phase_flip\<close> and the Z branch of \<open>_apply_pauli_correction\<close>: entry \<open>i\<close> is
  negated when \<open>(i >> (N - 1 - qubit)) & 1\<close> is set.
\<close>

definition apply_phase_flip :: "cvec \<Rightarrow> nat \<Rightarrow> error + cvec" where
  "apply_phase_flip state qubit =
     (case num_qubits_of state of
        Inl e \<Rightarrow> Inl e
      | Inr N \<Rightarrow>
          if N < qubit + 1 then Inl (ValueError ''negative shift count'')
          else Inr (map (\<lambda>i. if bit i (N - 1 - qubit) then - (state ! i) else state ! i)
                      [0..<length state]))"

definition apply_pauli_correction :: "cvec \<Rightarrow> nat \<Rightarrow> string \<Rightarrow> error + cvec" where
  "apply_pauli_correction state qubit pauli_type =
     (if pauli_type = ''X'' then apply_bit_flip state qubit else apply_phase_flip state qubit)"

text \<open>
  \<open>_measure_pauli_operator\<close>: the operator is built from \<open>[[1]]\<close> by one Kronecker
  factor per bit (the Pauli matrix where the bit is 1, the identity elsewhere; any type
  other than \<open>'X'\<close> is read as Z); the result is the real part of \<open>state* . op . state\<close>.
\<close>

definition pauli_operator :: "nat list \<Rightarrow> string \<Rightarrow> cmat" where
  "pauli_operator operator_bits pauli_type =
     (let single_op = (if pauli_type = ''X'' then [[0, 1], [1, 0]] else [[1, 0], [0, - 1]]);
          identity = [[1, 0], [0, 1]]
      in fold (\<lambda>b op. if b = 1 then kron op single_op else kron op identity)
           operator_bits [[1]])"

definition measure_pauli_operator :: "cvec \<Rightarrow> nat list \<Rightarrow> string \<Rightarrow> error + real" where
  "measure_pauli_operator state operator_bits pauli_type =
     (case quad_form state (pauli_operator operator_bits pauli_type) of
        Inl e \<Rightarrow> Inl e
      | Inr v \<Rightarrow> Inr (Re v))"

subsection \<open>Steane code\<close>

definition x_stabilizers :: "nat list list" where
  "x_stabilizers = [[1, 1, 1, 1, 0, 0, 0], [1, 1, 0, 0, 1, 1, 0], [1, 0, 1, 0, 1, 0, 1]]"

definition z_stabilizers :: "nat list list" where
  "z_stabilizers = [[1, 1, 1, 1, 0, 0, 0], [1, 1, 0, 0, 1, 1, 0], [1, 0, 1, 0, 1, 0, 1]]"

text \<open>
  The key computed in \<open>_build_syndrome_table\<close> for a single error on qubit \<open>i\<close>:
  \<open>tuple((sum(stab[j] for j in range(7) if j == i) % 2) for stab in stabilizers)\<close>.
\<close>

definition single_error_syndrome :: "nat list list \<Rightarrow> nat \<Rightarrow> nat list" where
  "single_error_syndrome stabilizers i =
     map (\<lambda>stab. sum_list (map (\<lambda>j. stab ! j) (filter (\<lambda>j. j = i) [0..<7])) mod 2)
       stabilizers"

text \<open>
  The table is a Python dict from syndrome tuples to \<open>(kind, qubit)\<close>: an association
  list in insertion order, where storing under a key that is present replaces its value
  (\<open>AList.update\<close>). The X entries are stored first, then the Z entries, then no error.
\<close>

type_synonym syndrome_table = "(nat list \<times> (string \<times> int)) list"

definition build_syndrome_table :: syndrome_table where
  "build_syndrome_table =
     (let t1 = fold (\<lambda>i t. AList.update (single_error_syndrome x_stabilizers i) (''X'', int i) t)
                 [0..<7] [];
          t2 = fold (\<lambda>i t. AList.update (single_error_syndrome z_stabilizers i) (''Z'', int i) t)
                 [0..<7] t1
      in AList.update [0, 0, 0] (''I'', - 1) t2)"

text \<open>
  The basis indices of the two codewords (the binary literals of the source, in its
  order): \<open>0b0000000, 0b1010101, 0b0110011, 0b1100110, 0b0001111, 0b1011010, 0b0111100,
  0b1101001\<close> and \<open>0b1111111, 0b0101010, 0b1001100, 0b0011001, 0b1110000, 0b0100101,
  0b1000011, 0b0010110\<close>. \<open>encode\<close> and \<open>_get_logical_projector\<close> list the same indices.
\<close>

definition steane_zero_codewords :: "nat list" where
  "steane_zero_codewords = [0, 85, 51, 102, 15, 90, 60, 105]"

definition steane_one_codewords :: "nat list" where
  "steane_one_codewords = [127, 42, 76, 25, 112, 37, 67, 22]"

text \<open>\<open>zero_logical\<close> and \<open>one_logical\<close>: \<open>1/sqrt(8)\<close> stored at every codeword index
  of a zero vector of \<open>2^7\<close> entries.\<close>

definition steane_zero_logical :: cvec where
  "steane_zero_logical =
     fold (\<lambda>cw v. v[cw := 1 / complex_of_real (sqrt 8)]) steane_zero_codewords (replicate 128 0)"

definition steane_one_logical :: cvec where
  "steane_one_logical =
     fold (\<lambda>cw v. v[cw := 1 / complex_of_real (sqrt 8)]) steane_one_codewords (replicate 128 0)"

text \<open>\<open>alpha * zero_logical + beta * one_logical\<close>, entry by entry.\<close>

definition steane_state :: "complex \<Rightarrow> complex \<Rightarrow> cvec" where
  "steane_state alpha beta =
     map2 (\<lambda>zero one. alpha * zero + beta * one) steane_zero_logical steane_one_logical"

definition steane_encode :: "cvec \<Rightarrow> error + cvec" where
  "steane_encode logical_state =
     (if length logical_state \<noteq> 2 then Inl (ValueError ''Input must be a single qubit state'')
      else let alpha = logical_state ! 0; beta = logical_state ! 1
           in Inr (steane_state alpha beta))"

text \<open>\<open>_get_logical_projector\<close>: \<open>1/8\<close> on the diagonal at every codeword index.\<close>

definition steane_codewords :: "nat \<Rightarrow> nat list" where
  "steane_codewords logical_bit =
     (if logical_bit = 0 then steane_zero_codewords else steane_one_codewords)"

definition get_logical_projector :: "nat \<Rightarrow> cmat" where
  "get_logical_projector logical_bit =
     fold (\<lambda>cw proj. proj[cw := (proj ! cw)[cw := 1 / 8]]) (steane_codewords logical_bit)
       (replicate 128 (replicate 128 0))"

text \<open>
  \<open>decode\<close>. When a square root is NaN, so is \<open>norm\<close>, the test \<open>norm > 0\<close> is false and
  the default state is returned.
\<close>

definition steane_decode :: "cvec \<Rightarrow> error + cvec" where
  "steane_decode physical_state =
     (case quad_form physical_state (get_logical_projector 0) of
        Inl e \<Rightarrow> Inl e
      | Inr e0 \<Rightarrow>
          (case quad_form physical_state (get_logical_projector 1) of
             Inl e \<Rightarrow> Inl e
           | Inr e1 \<Rightarrow>
               (case np_sqrt (Re e0) of
                  None \<Rightarrow> Inr [1, 0]
                | Some zero_amplitude \<Rightarrow>
                    (case np_sqrt (Re e1) of
                       None \<Rightarrow> Inr [1, 0]
                     | Some one_amplitude \<Rightarrow>
                         (let nrm = sqrt (zero_amplitude\<^sup>2 + one_amplitude\<^sup>2)
                          in if nrm > 0
                             then Inr [complex_of_real (zero_amplitude / nrm),
                                       complex_of_real (one_amplitude / nrm)]
                             else Inr [1, 0])))))"

text \<open>The two loops of \<open>measure_syndrome\<close>: one bit per stabilizer, 1 when the
  expectation value is negative.\<close>

fun measure_stabilizers :: "cvec \<Rightarrow> nat list list \<Rightarrow> string \<Rightarrow> error + nat list" where
  "measure_stabilizers state [] pauli_type = Inr []"
| "measure_stabilizers state (stabilizer # rest) pauli_type =
     (case measure_pauli_operator state stabilizer pauli_type of
        Inl e \<Rightarrow> Inl e
      | Inr measurement \<Rightarrow>
          (case measure_stabilizers state rest pauli_type of
             Inl e \<Rightarrow> Inl e
           | Inr bits \<Rightarrow> Inr ((if measurement < 0 then 1 else 0) # bits)))"

text \<open>\<open>measure_syndrome\<close>; \<open>elapsed\<close> is the wall-clock time the call took.\<close>

definition steane_measure_syndrome :: "cvec \<Rightarrow> real \<Rightarrow> error + SyndromeResult" where
  "steane_measure_syndrome physical_state elapsed =
     (case measure_stabilizers physical_state x_stabilizers ''X'' of
        Inl e \<Rightarrow> Inl e
      | Inr x_syndrome \<Rightarrow>
          (case measure_stabilizers physical_state z_stabilizers ''Z'' of
             Inl e \<Rightarrow> Inl e
           | Inr z_syndrome \<Rightarrow>
               Inr \<lparr>syndrome = x_syndrome @ z_syndrome, measured_qubits = [0..<7],
                    measurement_time = elapsed, confidence = 0.95\<rparr>))"

text \<open>
  \<open>correct_errors\<close>: the first three syndrome bits and the rest are looked up in the
  table one after the other; an X (a Z) correction is applied only when the entry found
  is of kind \<open>'X'\<close> (\<open>'Z'\<close>) with a qubit \<open>\<ge> 0\<close>.
\<close>

definition steane_correct_errors :: "cvec \<Rightarrow> SyndromeResult \<Rightarrow> error + cvec" where
  "steane_correct_errors physical_state syndrome_result =
     (let x_syndrome = take 3 (syndrome syndrome_result);
          z_syndrome = drop 3 (syndrome syndrome_result);
          after_x =
            (case map_of build_syndrome_table x_syndrome of
               None \<Rightarrow> Inr physical_state
             | Some (kind, qubit) \<Rightarrow>
                 if kind = ''X'' \<and> qubit \<ge> 0
                 then apply_pauli_correction physical_state (nat qubit) ''X''
                 else Inr physical_state)
      in case after_x of
           Inl e \<Rightarrow> Inl e
         | Inr corrected_state \<Rightarrow>
             (case map_of build_syndrome_table z_syndrome of
                None \<Rightarrow> Inr corrected_state
              | Some (kind, qubit) \<Rightarrow>
                  if kind = ''Z'' \<and> qubit \<ge> 0
                  then apply_pauli_correction corrected_state (nat qubit) ''Z''
                  else Inr corrected_state))"

subsection \<open>Shor code\<close>

text \<open>
  \<open>encode\<close>: \<open>zero_terms\<close> are the indices \<open>0b000000000, 0b000111111, 0b111000111,
  0b111111000\<close>; \<open>one_terms\<close> are the same numbers with the two middle ones negated.
  Every zero term gets \<open>alpha * norm\<close> added; the first one term gets \<open>beta * norm\<close>, the
  others \<open>beta * norm\<close> times the sign of the term, at the term's absolute value.
\<close>

definition shor_zero_terms :: "nat list" where
  "shor_zero_terms = [0, 63, 455, 504]"

definition shor_one_terms :: "int list" where
  "shor_one_terms = [0, - 63, - 455, 504]"

definition shor_state :: "complex \<Rightarrow> complex \<Rightarrow> cvec" where
  "shor_state alpha beta =
     (let norm = 1 / complex_of_real (2 * sqrt 2);
          encoded_state = replicate 512 0;
          after_zero = fold (\<lambda>term st. st[term := st ! term + alpha * norm])
                         shor_zero_terms encoded_state;
          after_one = fold (\<lambda>(i, term) st.
                               if i = 0 then st[nat term := st ! nat term + beta * norm]
                               else st[nat \<bar>term\<bar> := st ! nat \<bar>term\<bar>
                                         + beta * norm * (if term > 0 then 1 else - 1)])
                         (enumerate 0 shor_one_terms) after_zero
      in after_one)"

text \<open>\<open>logical_state[0]\<close> and \<open>logical_state[1]\<close> raise \<open>IndexError\<close> on a shorter
  array.\<close>

definition shor_encode :: "cvec \<Rightarrow> error + cvec" where
  "shor_encode logical_state =
     (if length logical_state < 2 then Inl IndexError
      else Inr (shor_state (logical_state ! 0) (logical_state ! 1)))"

text \<open>\<open>_get_shor_projector\<close>: a diagonal matrix, \<open>1/8\<close> at the four indices for bit 0,
  \<open>1/8\<close> times the listed sign for bit 1.\<close>

definition get_shor_projector :: "nat \<Rightarrow> cmat" where
  "get_shor_projector logical_bit =
     (if logical_bit = 0
      then fold (\<lambda>st proj. proj[st := (proj ! st)[st := 1 / 8]]) [0, 63, 455, 504]
             (replicate 512 (replicate 512 0))
      else fold (\<lambda>(st, sign) proj. proj[st := (proj ! st)[st := 1 / 8 * sign]])
             [(0, 1), (63, - 1), (455, - 1), (504, 1)]
             (replicate 512 (replicate 512 0)))"

definition shor_decode :: "cvec \<Rightarrow> error + cvec" where
  "shor_decode physical_state =
     (case quad_form physical_state (get_shor_projector 0) of
        Inl e \<Rightarrow> Inl e
      | Inr e0 \<Rightarrow>
          (case quad_form physical_state (get_shor_projector 1) of
             Inl e \<Rightarrow> Inl e
           | Inr e1 \<Rightarrow>
               (case np_sqrt (Re e0) of
                  None \<Rightarrow> Inr [1, 0]
                | Some zero_amp \<Rightarrow>
                    (case np_sqrt (Re e1) of
                       None \<Rightarrow> Inr [1, 0]
                     | Some one_amp \<Rightarrow>
                         (let nrm = sqrt (zero_amp\<^sup>2 + one_amp\<^sup>2)
                          in if nrm > 0
                             then Inr [complex_of_real (zero_amp / nrm),
                                       complex_of_real (one_amp / nrm)]
                             else Inr [1, 0])))))"

text \<open>
  \<open>ShorCodeCorrector.correct_errors\<close> copies the state and returns the copy; the
  syndrome is not read.
\<close>

definition shor_correct_errors :: "cvec \<Rightarrow> SyndromeResult \<Rightarrow> cvec" where
  "shor_correct_errors physical_state syndrome_result =
     (let corrected_state = physical_state in corrected_state)"

subsection \<open>Surface code\<close>

text \<open>\<open>encode\<close> for distance \<open>d\<close>: \<open>2 d^2 - 1\<close> physical qubits, the two logical
  amplitudes at the first and the last index. \<open>decode\<close> returns the fixed state.\<close>

definition surface_encode :: "nat \<Rightarrow> cvec \<Rightarrow> error + cvec" where
  "surface_encode distance logical_state =
     (if length logical_state < 2 then Inl IndexError
      else let len = 2 ^ (2 * distance\<^sup>2 - 1)
           in Inr ((replicate len 0)[0 := logical_state ! 0, len - 1 := logical_state ! 1]))"

definition surface_decode :: "cvec \<Rightarrow> cvec" where
  "surface_decode physical_state = [1, 0]"

subsection \<open>The fault-tolerant service\<close>

text \<open>
  The random source and the clock are inputs. For every qubit, \<open>draw_uniform\<close> is the
  value of \<open>np.random.random()\<close> (in \<open>[0, 1)\<close>), \<open>draw_kind\<close> the kind
  \<open>np.random.choice\<close> picks when an error occurs and \<open>draw_time\<close> the time stamp.
\<close>

record draw =
  draw_uniform :: real
  draw_kind :: ErrorType
  draw_time :: real

definition encode_logical_qubit :: "cvec \<Rightarrow> CorrectionCode \<Rightarrow> error + cvec" where
  "encode_logical_qubit logical_state code =
     (case code of
        STEANE_7 \<Rightarrow> steane_encode logical_state
      | SHOR_9 \<Rightarrow> shor_encode logical_state
      | SURFACE \<Rightarrow> surface_encode 3 logical_state
      | _ \<Rightarrow> Inl (ValueError ''Unsupported code type''))"

text \<open>The loop of \<open>simulate_errors\<close> over the qubits, carrying the noisy state and the
  list of errors.\<close>

fun inject_errors ::
  "real \<Rightarrow> (nat \<Rightarrow> draw) \<Rightarrow> nat list \<Rightarrow> cvec \<Rightarrow> QubitError list \<Rightarrow> error + cvec \<times> QubitError list"
where
  "inject_errors rate rng [] noisy_state errors = Inr (noisy_state, errors)"
| "inject_errors rate rng (qubit # rest) noisy_state errors =
     (if draw_uniform (rng qubit) < rate
      then (let kind = draw_kind (rng qubit);
                err = \<lparr>qubit_id = qubit, error_type = kind, timestamp = draw_time (rng qubit),
                       probability = rate, corrected = False\<rparr>;
                applied =
                  (if kind = BIT_FLIP then apply_bit_flip noisy_state qubit
                   else if kind = PHASE_FLIP then apply_phase_flip noisy_state qubit
                   else if kind = BOTH
                   then (case apply_bit_flip noisy_state qubit of
                           Inl e \<Rightarrow> Inl e
                         | Inr flipped \<Rightarrow> apply_phase_flip flipped qubit)
                   else Inr noisy_state)
            in case applied of
                 Inl e \<Rightarrow> Inl e
               | Inr noisy_state' \<Rightarrow> inject_errors rate rng rest noisy_state' (errors @ [err]))
      else inject_errors rate rng rest noisy_state errors)"

text \<open>\<open>simulate_errors\<close>. The error history and the correction statistics of the
  service are logs that no result of a cycle reads; they are outside the model.\<close>

definition simulate_errors ::
  "cvec \<Rightarrow> real \<Rightarrow> (nat \<Rightarrow> draw) \<Rightarrow> error + cvec \<times> QubitError list"
where
  "simulate_errors physical_state rate rng =
     (case num_qubits_of physical_state of
        Inl e \<Rightarrow> Inl e
      | Inr n \<Rightarrow> inject_errors rate rng [0..<n] physical_state [])"

text \<open>
  \<open>perform_error_correction\<close>. Only the Steane class defines
  \<open>_measure_pauli_operator\<close>; \<open>measure_syndrome\<close> of the Shor and of the surface code
  call it on \<open>self\<close> and raise \<open>AttributeError\<close>. The other codes have no corrector;
  \<open>encode_logical_qubit\<close> has raised for them before.
\<close>

definition perform_error_correction ::
  "cvec \<Rightarrow> CorrectionCode \<Rightarrow> real \<Rightarrow> error + cvec \<times> SyndromeResult"
where
  "perform_error_correction noisy_state code elapsed =
     (case code of
        STEANE_7 \<Rightarrow>
          (case steane_measure_syndrome noisy_state elapsed of
             Inl e \<Rightarrow> Inl e
           | Inr syn \<Rightarrow>
               (case steane_correct_errors noisy_state syn of
                  Inl e \<Rightarrow> Inl e
                | Inr corrected_state \<Rightarrow> Inr (corrected_state, syn)))
      | SHOR_9 \<Rightarrow> Inl AttributeError
      | SURFACE \<Rightarrow> Inl AttributeError
      | _ \<Rightarrow> Inl (ValueError ''Unsupported code type''))"

definition decode_with :: "CorrectionCode \<Rightarrow> cvec \<Rightarrow> error + cvec" where
  "decode_with code physical_state =
     (case code of
        STEANE_7 \<Rightarrow> steane_decode physical_state
      | SHOR_9 \<Rightarrow> shor_decode physical_state
      | SURFACE \<Rightarrow> Inr (surface_decode physical_state)
      | _ \<Rightarrow> Inl (ValueError ''Unsupported code type''))"

record CycleResult =
  cycle :: nat
  errors_detected :: nat
  cycle_syndrome :: "nat list"
  logical_fidelity :: real

record CycleResults =
  initial_logical_state :: cvec
  code_type :: CorrectionCode
  error_rate :: real
  cycles :: "CycleResult list"
  final_logical_state :: cvec
  final_fidelity :: real

text \<open>
  The loop of \<open>full_error_correction_cycle\<close> over the cycles: inject noise, correct,
  decode for the cycle's fidelity, and carry the corrected state on. \<open>rng c\<close> are the
  draws of cycle \<open>c\<close>, \<open>elapsed c\<close> the time of its syndrome measurement; the wall-clock
  \<open>cycle_time\<close> of a record is left out.
\<close>

fun run_cycles ::
  "cvec \<Rightarrow> CorrectionCode \<Rightarrow> real \<Rightarrow> (nat \<Rightarrow> nat \<Rightarrow> draw) \<Rightarrow> (nat \<Rightarrow> real) \<Rightarrow> nat list \<Rightarrow> cvec
     \<Rightarrow> CycleResult list \<Rightarrow> error + cvec \<times> CycleResult list"
where
  "run_cycles logical_state code rate rng elapsed [] current_state records =
     Inr (current_state, records)"
| "run_cycles logical_state code rate rng elapsed (c # rest) current_state records =
     (case simulate_errors current_state rate (rng c) of
        Inl e \<Rightarrow> Inl e
      | Inr (noisy_state, errors) \<Rightarrow>
          (case perform_error_correction noisy_state code (elapsed c) of
             Inl e \<Rightarrow> Inl e
           | Inr (corrected_state, syn) \<Rightarrow>
               (case decode_with code corrected_state of
                  Inl e \<Rightarrow> Inl e
                | Inr decoded_state \<Rightarrow>
                    (case fidelity logical_state decoded_state of
                       Inl e \<Rightarrow> Inl e
                     | Inr f \<Rightarrow>
                         run_cycles logical_state code rate rng elapsed rest corrected_state
                           (records @ [\<lparr>cycle = c, errors_detected = length errors,
                                     cycle_syndrome = syndrome syn,
                                     logical_fidelity = f\<rparr>])))))"

definition full_error_correction_cycle ::
  "cvec \<Rightarrow> CorrectionCode \<Rightarrow> real \<Rightarrow> nat \<Rightarrow> (nat \<Rightarrow> nat \<Rightarrow> draw) \<Rightarrow> (nat \<Rightarrow> real)
     \<Rightarrow> error + CycleResults"
where
  "full_error_correction_cycle logical_state code rate num_cycles rng elapsed =
     (case encode_logical_qubit logical_state code of
        Inl e \<Rightarrow> Inl e
      | Inr encoded \<Rightarrow>
          (case run_cycles logical_state code rate rng elapsed [0..<num_cycles] encoded [] of
             Inl e \<Rightarrow> Inl e
           | Inr (current_state, records) \<Rightarrow>
               (case decode_with code current_state of
                  Inl e \<Rightarrow> Inl e
                | Inr final \<Rightarrow>
                    (case fidelity logical_state final of
                       Inl e \<Rightarrow> Inl e
                     | Inr f \<Rightarrow>
                         Inr \<lparr>initial_logical_state = logical_state, code_type = code,
                              error_rate = rate, cycles = records,
                              final_logical_state = final, final_fidelity = f\<rparr>))))"

section \<open>Auxiliary notions of the proofs\<close>

text \<open>
  \<open>is_mat r c A\<close>: the matrix has \<open>r\<close> rows of \<open>c\<close> entries. \<open>nnr z\<close>: the complex number
  is real and not negative. \<open>z_sign_rev bs i\<close>: the diagonal entry \<open>i\<close> of the Z-type Pauli
  operator whose bits, last qubit first, are \<open>bs\<close>. \<open>flipped_zero\<close> and \<open>corrected_zero\<close>
  are the encoded state \<open>[1, 0]\<close> after the bit flip on qubit 0 and after the correction
  that follows; \<open>zero_syndrome\<close> and \<open>clean_record\<close> are the syndrome and the record of a
  cycle without error.
\<close>

definition is_mat :: "nat \<Rightarrow> nat \<Rightarrow> cmat \<Rightarrow> bool" where
  "is_mat r c A \<longleftrightarrow> length A = r \<and> list_all (\<lambda>row. length row = c) A"

definition nnr :: "complex \<Rightarrow> bool" where
  "nnr z \<longleftrightarrow> Im z = 0 \<and> 0 \<le> Re z"

fun z_sign_rev :: "nat list \<Rightarrow> nat \<Rightarrow> real" where
  "z_sign_rev [] i = 1"
| "z_sign_rev (b # bs) i = (if b = 1 \<and> odd i then - 1 else 1) * z_sign_rev bs (i div 2)"

definition flipped_zero :: cvec where
  "flipped_zero = map (\<lambda>i. steane_state 1 0 ! (i XOR 64)) [0..<128]"

definition corrected_zero :: cvec where
  "corrected_zero = map (\<lambda>i. if bit i 2 then - (flipped_zero ! i) else flipped_zero ! i) [0..<128]"

definition zero_syndrome :: "real \<Rightarrow> SyndromeResult" where
  "zero_syndrome t = \<lparr>syndrome = [0, 0, 0, 0, 0, 0], measured_qubits = [0..<7],
          measurement_time = t, confidence = 0.95\<rparr>"

definition clean_record :: "nat \<Rightarrow> CycleResult" where
  "clean_record c = \<lparr>cycle = c, errors_detected = 0, cycle_syndrome = [0, 0, 0, 0, 0, 0],
      logical_fidelity = 1\<rparr>"

text \<open>
  \<open>unitary d U\<close>: \<open>U\<close> is a \<open>d\<close> by \<open>d\<close> matrix with \<open>U* U = I\<close> (for a square matrix
  this is unitarity). \<open>target_index\<close> and \<open>same_rest\<close> are \<open>i_target\<close> and the test on the
  non-target bits of \<open>_multi_qubit_full_matrix\<close>, for targets given as positions;
  \<open>mix_bits n pos j a\<close> is the index that has the bits of \<open>a\<close> at the target positions and
  the bits of \<open>j\<close> elsewhere. \<open>cnot_matrix\<close> is the CNOT entry of the gate table.
\<close>

definition unitary :: "nat \<Rightarrow> cmat \<Rightarrow> bool" where
  "unitary d U \<longleftrightarrow>
     is_mat d d U \<and>
     list_all (\<lambda>j. list_all (\<lambda>k. sum_list (map (\<lambda>i. cnj (U ! i ! j) * U ! i ! k) [0..<d])
                                    = (if j = k then 1 else 0)) [0..<d]) [0..<d]"

definition target_index :: "nat list \<Rightarrow> nat \<Rightarrow> nat" where
  "target_index pos i =
     sum_list (map (\<lambda>k. (if bit i (pos ! k) then 1 else 0) * 2 ^ k) [0..<length pos])"

definition same_rest :: "nat \<Rightarrow> nat list \<Rightarrow> nat \<Rightarrow> nat \<Rightarrow> bool" where
  "same_rest n pos i j = list_all (\<lambda>b. b \<in> set pos \<or> bit i b = bit j b) [0..<n]"

definition mix_bits :: "nat \<Rightarrow> nat list \<Rightarrow> nat \<Rightarrow> nat \<Rightarrow> nat" where
  "mix_bits n pos j a =
     horner_sum of_bool 2
       (map (\<lambda>b. if b \<in> set pos then (\<exists>m<length pos. pos ! m = b \<and> bit a m) else bit j b)
          [0..<n])"

definition cnot_matrix :: cmat where
  "cnot_matrix = [[1, 0, 0, 0], [0, 1, 0, 0], [0, 0, 0, 1], [0, 0, 1, 0]]"

section \<open>Properties\<close>

subsection \<open>The Steane syndrome table\<close>

lemma single_error_syndrome_x:
  "map (single_error_syndrome x_stabilizers) [0..<7] =
     [[1,1,1], [1,1,0], [1,0,1], [1,0,0], [0,1,1], [0,1,0], [0,0,1]]"
  by (simp add: single_error_syndrome_def x_stabilizers_def upt_rec)

lemma single_error_syndrome_z:
  "map (single_error_syndrome z_stabilizers) [0..<7] =
     [[1,1,1], [1,1,0], [1,0,1], [1,0,0], [0,1,1], [0,1,0], [0,0,1]]"
  by (simp add: single_error_syndrome_def z_stabilizers_def upt_rec)

lemma build_syndrome_table_eq:
  "build_syndrome_table =
     [([1,1,1], (''Z'', 0)), ([1,1,0], (''Z'', 1)), ([1,0,1], (''Z'', 2)),
      ([1,0,0], (''Z'', 3)), ([0,1,1], (''Z'', 4)), ([0,1,0], (''Z'', 5)),
      ([0,0,1], (''Z'', 6)), ([0,0,0], (''I'', - 1))]"
  by (simp add: build_syndrome_table_def single_error_syndrome_def x_stabilizers_def
      z_stabilizers_def upt_rec)

text \<open>
  C1. The claim: the 15 cases (no error, an X error on one of 7 qubits, a Z error on one
  of 7 qubits) get 15 pairwise distinct syndrome patterns in the table. In the code the
  key of the X error and the key of the Z error on the same qubit are equal, so each Z
  entry replaces the X entry stored before it: the table has 8 entries, none of kind X.
\<close>

theorem syndrome_table_x_entries_overwritten:
  "single_error_syndrome x_stabilizers 0 = single_error_syndrome z_stabilizers 0
   \<and> length build_syndrome_table = 8
   \<and> map_of build_syndrome_table [1, 1, 1] = Some (''Z'', 0)
   \<and> ''X'' \<notin> fst ` snd ` set build_syndrome_table"
  unfolding build_syndrome_table_eq
  by (simp add: single_error_syndrome_def x_stabilizers_def z_stabilizers_def upt_rec)

subsection \<open>Shor correction\<close>

text \<open>
  C7. For every physical state and every syndrome result, the Shor code's
  \<open>correct_errors\<close> returns a state equal to its input.
\<close>

theorem shor_correct_errors_identity:
  "shor_correct_errors physical_state syndrome_result = physical_state"
  by (simp add: shor_correct_errors_def)

subsection \<open>Gate validation\<close>

lemma fold_max_ge: "fold max qs (q::int) \<ge> n \<longleftrightarrow> (\<exists>t \<in> set (q # qs). t \<ge> n)"
  by (induction qs arbitrary: q) (auto simp: max_def)

lemma add_gate_raises_iff:
  "(\<exists>e. add_gate circuit gate = Inl e) \<longleftrightarrow>
     qubits gate = [] \<or> (\<exists>t \<in> set (qubits gate). t \<ge> int (num_qubits circuit))"
  unfolding add_gate_def using fold_max_ge
  by (cases "qubits gate") (simp_all split: if_splits)

text \<open>
  C9. The claim: adding a gate raises a validation error exactly when some target index
  is outside \<open>[0, n)\<close>. The code compares only the largest index with \<open>n\<close>: a gate on
  qubit \<open>-1\<close> of a 2-qubit circuit is accepted and appended.
\<close>

theorem add_gate_accepts_negative_index:
  "add_gate (new_circuit 2)
     \<lparr>gate_type = PAULI_X, qubits = [- 1], parameters = None, matrix = None\<rparr>
   = Inr ((new_circuit 2)
       \<lparr>gates := [\<lparr>gate_type = PAULI_X, qubits = [- 1], parameters = None, matrix = None\<rparr>]\<rparr>)"
  by (simp add: add_gate_def new_circuit_def)

subsection \<open>Measurement histogram\<close>

declare bin_digits.simps [simp del]

lemma sum_bump: "sum_list (map snd (bump al k)) = sum_list (map snd al) + 1"
  unfolding bump_def by (induction al) auto

lemma keys_bump: "fst ` set (bump al k) = insert k (fst ` set al)"
  unfolding bump_def by (simp add: update_conv' flip: dom_map_of_conv_image_fst)

lemma fold_bump_sum:
  "sum_list (map snd (fold (\<lambda>outcome counts. bump counts (f outcome)) outcomes al))
     = sum_list (map snd al) + length outcomes"
  by (induction outcomes arbitrary: al) (simp_all add: sum_bump)

lemma fold_bump_keys:
  "fst ` set (fold (\<lambda>outcome counts. bump counts (f outcome)) outcomes al)
     = fst ` set al \<union> f ` set outcomes"
  by (induction outcomes arbitrary: al) (auto simp: keys_bump)

lemma count_outcomes_sum: "sum_list (map snd (count_outcomes n outcomes)) = length outcomes"
  by (simp add: count_outcomes_def fold_bump_sum)

lemma count_outcomes_keys: "fst ` set (count_outcomes n outcomes) = format_0nb n ` set outcomes"
  by (simp add: count_outcomes_def fold_bump_keys)

lemma length_bin_digits: "x < 2 ^ n \<Longrightarrow> 0 < n \<Longrightarrow> length (bin_digits x) \<le> n"
proof (induction x arbitrary: n rule: bin_digits.induct)
  case (1 x)
  show ?case
  proof (cases "x < 2")
    case True
    then show ?thesis using "1.prems" by (subst bin_digits.simps) simp
  next
    case False
    then obtain m where n: "n = Suc m" using "1.prems" by (cases n) auto
    from False "1.prems" n have m: "0 < m" by (cases m) auto
    from "1.prems" n have "x div 2 < 2 ^ m" by auto
    with "1.IH"[OF False this m] n False show ?thesis
      by (subst bin_digits.simps) simp
  qed
qed

lemma set_bin_digits: "set (bin_digits x) \<subseteq> {CHR ''0'', CHR ''1''}"
  by (induction x rule: bin_digits.induct) (subst bin_digits.simps, auto)

lemma length_format_0nb: "x < 2 ^ n \<Longrightarrow> 0 < n \<Longrightarrow> length (format_0nb n x) = n"
  using length_bin_digits[of x n] by (simp add: format_0nb_def)

lemma set_format_0nb: "set (format_0nb n x) \<subseteq> {CHR ''0'', CHR ''1''}"
  using set_bin_digits[of x] by (auto simp: format_0nb_def)

lemma apply_gate_num_qubits:
  "apply_gate_to_circuit circuit g = Inr c \<Longrightarrow> num_qubits c = num_qubits circuit"
  by (auto simp: apply_gate_to_circuit_def split: option.splits sum.splits)

lemma apply_gates_num_qubits:
  "apply_gates circuit gs = Inr c \<Longrightarrow> num_qubits c = num_qubits circuit"
  by (induction gs arbitrary: circuit) (auto split: sum.splits dest: apply_gate_num_qubits)

text \<open>
  C8, as the claim states it, fails for a circuit of 0 qubits: its only outcome is
  formatted as \<open>"0"\<close>, one character and not \<open>n = 0\<close>.
\<close>

theorem simulate_circuit_zero_qubits_key:
  "simulate_circuit (new_circuit 0) 1 [0] =
     Inr \<lparr>counts = [(''0'', 1)], probabilities = [1], result_state_vector = [1],
          result_num_qubits = 0, num_gates = 0, shots = 1\<rparr>
   \<and> length ''0'' \<noteq> num_qubits (new_circuit 0)"
  by (simp add: simulate_circuit_def new_circuit_def count_outcomes_def bump_def
      format_0nb_def bin_digits.simps)

text \<open>
  C8, amended. Let the gates of a circuit of \<open>n \<ge> 1\<close> qubits run without error to a state
  of \<open>2^n\<close> amplitudes whose probabilities sum to 1, and let the sampler return
  \<open>shots \<ge> 1\<close> outcomes, each an index of the state. Then the simulation returns a
  histogram whose keys are strings of \<open>n\<close> characters \<open>0\<close> or \<open>1\<close> and whose counts sum
  to \<open>shots\<close>.
\<close>

theorem simulate_circuit_counts_total:
  assumes run: "apply_gates circuit (gates circuit) = Inr c"
    and dist: "sum_list (map (\<lambda>a. (cmod a)\<^sup>2) (state_vector c)) = 1"
    and len: "length (state_vector c) = 2 ^ num_qubits circuit"
    and n: "0 < num_qubits circuit"
    and shots: "1 \<le> n_shots"
    and draw: "length outcomes = n_shots"
      "list_all (\<lambda>outcome. outcome < length (state_vector c)) outcomes"
  shows "\<exists>r. simulate_circuit circuit n_shots outcomes = Inr r
           \<and> sum_list (map snd (counts r)) = n_shots
           \<and> list_all (\<lambda>kv. length (fst kv) = num_qubits circuit
                             \<and> set (fst kv) \<subseteq> {CHR ''0'', CHR ''1''}) (counts r)"
proof -
  have nq: "num_qubits c = num_qubits circuit"
    using run by (rule apply_gates_num_qubits)
  define r where "r = \<lparr>counts = count_outcomes (num_qubits c) outcomes,
      probabilities = map (\<lambda>a. (cmod a)\<^sup>2) (state_vector c),
      result_state_vector = state_vector c, result_num_qubits = num_qubits c,
      num_gates = length (gates c), shots = n_shots\<rparr>"
  have ret: "simulate_circuit circuit n_shots outcomes = Inr r"
    using run dist by (simp add: simulate_circuit_def r_def)
  have total: "sum_list (map snd (counts r)) = n_shots"
    using draw(1) by (simp add: r_def count_outcomes_sum)
  have keys: "length (fst kv) = num_qubits circuit \<and> set (fst kv) \<subseteq> {CHR ''0'', CHR ''1''}"
    if "kv \<in> set (counts r)" for kv
  proof -
    from that have "fst kv \<in> format_0nb (num_qubits c) ` set outcomes"
      by (simp add: r_def flip: count_outcomes_keys)
    then obtain x where x: "x \<in> set outcomes" "fst kv = format_0nb (num_qubits c) x"
      by auto
    from x(1) draw(2) len have "x < 2 ^ num_qubits circuit"
      by (auto simp: list_all_iff)
    with x(2) n nq show ?thesis
      using length_format_0nb[of x "num_qubits circuit"] set_format_0nb[of "num_qubits circuit" x]
      by simp
  qed
  from ret total keys show ?thesis
    by (auto simp: list_all_iff)
qed

theorem simulate_circuit_counts_total_witness:
  "apply_gates (new_circuit 1) (gates (new_circuit 1)) = Inr (new_circuit 1)
   \<and> sum_list (map (\<lambda>a. (cmod a)\<^sup>2) (state_vector (new_circuit 1))) = 1
   \<and> length (state_vector (new_circuit 1)) = 2 ^ num_qubits (new_circuit 1)
   \<and> 0 < num_qubits (new_circuit 1)
   \<and> (1::nat) \<le> 2
   \<and> length [0, 0 :: nat] = 2
   \<and> list_all (\<lambda>outcome. outcome < length (state_vector (new_circuit 1))) [0, 0]
   \<and> (\<exists>r. simulate_circuit (new_circuit 1) 2 [0, 0] = Inr r
           \<and> sum_list (map snd (counts r)) = 2
           \<and> list_all (\<lambda>kv. length (fst kv) = num_qubits (new_circuit 1)
                             \<and> set (fst kv) \<subseteq> {CHR ''0'', CHR ''1''}) (counts r))"
proof -
  have h: "apply_gates (new_circuit 1) (gates (new_circuit 1)) = Inr (new_circuit 1)"
    "sum_list (map (\<lambda>a. (cmod a)\<^sup>2) (state_vector (new_circuit 1))) = 1"
    "length (state_vector (new_circuit 1)) = 2 ^ num_qubits (new_circuit 1)"
    "0 < num_qubits (new_circuit 1)"
    "(1::nat) \<le> 2"
    "length [0, 0 :: nat] = 2"
    "list_all (\<lambda>outcome. outcome < length (state_vector (new_circuit 1))) [0, 0]"
    by (simp_all add: new_circuit_def numeral_2_eq_2)
  from simulate_circuit_counts_total[OF h] h show ?thesis
    by blast
qed

subsection \<open>Sums, quadratic forms and diagonal matrices\<close>

lemma sum_list_upt_sum: "sum_list (map f [0..<n]) = sum f {..<n}"
  by (simp add: interv_sum_list_conv_sum_set_nat atLeast0LessThan)

lemma quad_form_diag:
  assumes len: "length D = length v"
    and rows: "list_all (\<lambda>row. length row = length v) D"
    and diag: "\<And>i j. i < length v \<Longrightarrow> j < length v \<Longrightarrow>
                 D ! i ! j = (if i = j then complex_of_real (r i) else 0)"
  shows "quad_form v D = Inr (complex_of_real (\<Sum>j<length v. r j * (cmod (v ! j))\<^sup>2))"
proof -
  have inner: "(\<Sum>i<length v. cnj (v ! i) * D ! i ! j) = cnj (v ! j) * complex_of_real (r j)"
    if j: "j < length v" for j
  proof -
    have "(\<Sum>i<length v. cnj (v ! i) * D ! i ! j)
        = (\<Sum>i<length v. if i = j then cnj (v ! i) * complex_of_real (r i) else 0)"
      by (rule sum.cong) (simp_all add: diag j)
    also have "\<dots> = cnj (v ! j) * complex_of_real (r j)"
      using j by (simp add: sum.delta)
    finally show ?thesis .
  qed
  have "(\<Sum>j<length v. (\<Sum>i<length v. cnj (v ! i) * D ! i ! j) * v ! j)
      = (\<Sum>j<length v. complex_of_real (r j * (cmod (v ! j))\<^sup>2))"
  proof (rule sum.cong)
    fix j assume "j \<in> {..<length v}"
    then have j: "j < length v" by simp
    have "cnj (v ! j) * complex_of_real (r j) * v ! j
        = complex_of_real (r j) * (v ! j * cnj (v ! j))" by (simp add: mult_ac)
    also have "\<dots> = complex_of_real (r j * (cmod (v ! j))\<^sup>2)"
      by (simp add: complex_norm_square del: of_real_power)
    finally show "(\<Sum>i<length v. cnj (v ! i) * D ! i ! j) * v ! j
        = complex_of_real (r j * (cmod (v ! j))\<^sup>2)"
      by (simp add: inner[OF j])
  qed simp
  then show ?thesis
    using len rows by (simp add: quad_form_def Let_def sum_list_upt_sum)
qed

lemma sum_support:
  fixes F :: "nat \<Rightarrow> real"
  assumes "distinct xs" and "list_all (\<lambda>x. x < n) xs"
  shows "(\<Sum>j<n. (if j \<in> set xs then F j else 0)) = sum_list (map F xs)"
proof -
  have sub: "set xs \<subseteq> {..<n}" using assms(2) by (auto simp: list_all_iff)
  have "(\<Sum>j<n. (if j \<in> set xs then F j else 0)) = (\<Sum>j\<in>set xs. F j)"
    using sub by (intro sum.mono_neutral_cong_right) auto
  also have "\<dots> = sum_list (map F xs)"
    using assms(1) by (rule sum.distinct_set_conv_list)
  finally show ?thesis .
qed

lemma fold_diag_update_length:
  "length (fold (\<lambda>x proj. proj[f x := (proj ! f x)[f x := g x]]) xs P) = length P"
  by (induction xs arbitrary: P) simp_all

lemma diag_update_rows:
  assumes "list_all (\<lambda>row. length row = n) P"
  shows "list_all (\<lambda>row. length row = n) (P[k := (P ! k)[k := c]])"
proof (cases "k < length P")
  case True
  with assms show ?thesis
    by (simp add: list_all_length nth_list_update)
next
  case False
  then have "P[k := (P ! k)[k := c]] = P" by (simp add: list_update_beyond)
  with assms show ?thesis by (simp only:)
qed

lemma fold_diag_update_rows:
  "list_all (\<lambda>row. length row = n) P \<Longrightarrow>
   list_all (\<lambda>row. length row = n) (fold (\<lambda>x proj. proj[f x := (proj ! f x)[f x := g x]]) xs P)"
  by (induction xs arbitrary: P) (simp_all add: diag_update_rows)

lemma diag_update_nth:
  assumes "length P = n" "list_all (\<lambda>row. length row = n) P" "i < n" "j < n"
  shows "P[k := (P ! k)[k := c]] ! i ! j = (if i = k \<and> j = k then c else P ! i ! j)"
proof (cases "k < n")
  case True
  with assms show ?thesis
    by (auto simp: nth_list_update list_all_length)
next
  case False
  then have "P[k := (P ! k)[k := c]] = P" using assms(1) by (simp add: list_update_beyond)
  with False assms show ?thesis by auto
qed

lemma fold_diag_update_nth:
  assumes "length P = n" "list_all (\<lambda>row. length row = n) P" "i < n" "j < n"
    and "list_all (\<lambda>x. g x = h (f x)) xs"
  shows "fold (\<lambda>x proj. proj[f x := (proj ! f x)[f x := g x]]) xs P ! i ! j
           = (if i = j \<and> i \<in> f ` set xs then h i else P ! i ! j)"
  using assms
proof (induction xs arbitrary: P)
  case Nil
  then show ?case by simp
next
  case (Cons x xs)
  let ?P = "P[f x := (P ! f x)[f x := g x]]"
  have l: "length ?P = n" using Cons.prems(1) by simp
  have r: "list_all (\<lambda>row. length row = n) ?P"
    using Cons.prems(2) by (rule diag_update_rows)
  have xs: "list_all (\<lambda>x. g x = h (f x)) xs" and gx: "g x = h (f x)"
    using Cons.prems(5) by simp_all
  have "fold (\<lambda>x proj. proj[f x := (proj ! f x)[f x := g x]]) (x # xs) P ! i ! j
      = fold (\<lambda>x proj. proj[f x := (proj ! f x)[f x := g x]]) xs ?P ! i ! j" by simp
  also have "\<dots> = (if i = j \<and> i \<in> f ` set xs then h i else ?P ! i ! j)"
    using Cons.IH[OF l r Cons.prems(3,4) xs] .
  also have "?P ! i ! j = (if i = f x \<and> j = f x then g x else P ! i ! j)"
    using diag_update_nth[OF Cons.prems(1-4)] .
  finally show ?case using gx by auto
qed

lemma fold_update_const_length:
  "length (fold (\<lambda>cw v. v[cw := c]) cws v0) = length v0"
  by (induction cws arbitrary: v0) simp_all

lemma fold_update_const_nth:
  "i < length v0 \<Longrightarrow>
   fold (\<lambda>cw v. v[cw := c]) cws v0 ! i = (if i \<in> set cws then c else v0 ! i)"
  by (induction cws arbitrary: v0) (auto simp: nth_list_update)

subsection \<open>The Steane codewords and projectors\<close>

lemma zero_matrix_rows: "list_all (\<lambda>row. length row = n) (replicate m (replicate n c))"
  by (simp add: list_all_length)

lemma projector_dims:
  "length (get_logical_projector b) = 128"
  "list_all (\<lambda>row. length row = 128) (get_logical_projector b)"
  unfolding get_logical_projector_def
  using fold_diag_update_rows[of 128 "replicate 128 (replicate 128 0)" "\<lambda>x. x" "\<lambda>x. 1/8", OF zero_matrix_rows]
  by (simp_all only: fold_diag_update_length[of "\<lambda>x. x" "\<lambda>x. 1/8"] length_replicate)

lemma projector_entry:
  assumes "i < 128" "j < 128"
  shows "get_logical_projector b ! i ! j
         = (if i = j then complex_of_real (if i \<in> set (steane_codewords b) then 1 / 8 else 0) else 0)"
proof -
  let ?Z = "replicate 128 (replicate 128 (0::complex))"
  have "get_logical_projector b ! i ! j
      = (if i = j \<and> i \<in> (\<lambda>x. x) ` set (steane_codewords b) then 1 / 8 else ?Z ! i ! j)"
    unfolding get_logical_projector_def
    by (rule fold_diag_update_nth[where f = "\<lambda>x. x" and g = "\<lambda>x. 1 / 8" and h = "\<lambda>x. 1 / 8" and n = 128])
       (simp_all add: assms list_all_length)
  then show ?thesis using assms by simp
qed

lemma steane_projection:
  assumes "length v = 128"
  shows "quad_form v (get_logical_projector b)
         = Inr (complex_of_real (\<Sum>cw\<leftarrow>steane_codewords b. 1 / 8 * (cmod (v ! cw))\<^sup>2))"
proof -
  have d: "distinct (steane_codewords b)" "list_all (\<lambda>x. x < 128) (steane_codewords b)"
    by (simp_all add: steane_codewords_def steane_zero_codewords_def steane_one_codewords_def)
  have "quad_form v (get_logical_projector b)
      = Inr (complex_of_real (\<Sum>j<length v.
            (if j \<in> set (steane_codewords b) then 1 / 8 else 0) * (cmod (v ! j))\<^sup>2))"
    by (rule quad_form_diag) (simp_all add: projector_dims assms projector_entry)
  also have "(\<Sum>j<length v. (if j \<in> set (steane_codewords b) then 1 / 8 else 0) * (cmod (v ! j))\<^sup>2)
      = (\<Sum>j<128. (if j \<in> set (steane_codewords b) then 1 / 8 * (cmod (v ! j))\<^sup>2 else 0))"
    unfolding assms by (rule sum.cong) simp_all
  also have "\<dots> = (\<Sum>cw\<leftarrow>steane_codewords b. 1 / 8 * (cmod (v ! cw))\<^sup>2)"
    using d by (rule sum_support)
  finally show ?thesis .
qed

lemma steane_logical_length:
  "length steane_zero_logical = 128" "length steane_one_logical = 128"
  by (simp_all add: steane_zero_logical_def steane_one_logical_def fold_update_const_length)

lemma steane_zero_logical_nth:
  "i < 128 \<Longrightarrow> steane_zero_logical ! i
     = (if i \<in> set steane_zero_codewords then 1 / complex_of_real (sqrt 8) else 0)"
  unfolding steane_zero_logical_def by (subst fold_update_const_nth) simp_all

lemma steane_one_logical_nth:
  "i < 128 \<Longrightarrow> steane_one_logical ! i
     = (if i \<in> set steane_one_codewords then 1 / complex_of_real (sqrt 8) else 0)"
  unfolding steane_one_logical_def by (subst fold_update_const_nth) simp_all

lemma steane_encode_eq: "steane_encode [a, b] = Inr (steane_state a b)"
  by (simp add: steane_encode_def)

lemma steane_state_length: "length (steane_state a b) = 128"
  by (simp add: steane_state_def steane_logical_length)

lemma steane_state_nth:
  "i < 128 \<Longrightarrow> steane_state a b ! i
     = (if i \<in> set steane_zero_codewords then a / complex_of_real (sqrt 8)
        else if i \<in> set steane_one_codewords then b / complex_of_real (sqrt 8) else 0)"
  by (simp add: steane_state_def steane_logical_length steane_zero_logical_nth steane_one_logical_nth
      steane_zero_codewords_def steane_one_codewords_def)

lemma steane_state_projection0:
  "quad_form (steane_state a b) (get_logical_projector 0) = Inr (complex_of_real ((cmod a)\<^sup>2 / 8))"
  by (simp add: steane_projection steane_state_length steane_codewords_def steane_state_nth
      steane_zero_codewords_def steane_one_codewords_def norm_divide power_divide)

lemma steane_state_projection1:
  "quad_form (steane_state a b) (get_logical_projector 1) = Inr (complex_of_real ((cmod b)\<^sup>2 / 8))"
  by (simp add: steane_projection steane_state_length steane_codewords_def steane_state_nth
      steane_zero_codewords_def steane_one_codewords_def norm_divide power_divide)

lemma steane_roundtrip:
  assumes "(cmod a)\<^sup>2 + (cmod b)\<^sup>2 = 1"
  shows "steane_decode (steane_state a b) = Inr [complex_of_real (cmod a), complex_of_real (cmod b)]"
proof -
  have s0: "sqrt ((cmod a)\<^sup>2 / 8) = cmod a / sqrt 8"
    by (simp add: real_sqrt_divide)
  have s1: "sqrt ((cmod b)\<^sup>2 / 8) = cmod b / sqrt 8"
    by (simp add: real_sqrt_divide)
  have "(cmod a / sqrt 8)\<^sup>2 + (cmod b / sqrt 8)\<^sup>2 = ((cmod a)\<^sup>2 + (cmod b)\<^sup>2) / 8"
    by (simp add: power_divide add_divide_distrib)
  also have "\<dots> = 1 / 8" by (simp only: assms)
  finally have "sqrt ((cmod a / sqrt 8)\<^sup>2 + (cmod b / sqrt 8)\<^sup>2) = sqrt (1 / 8)"
    by (simp only:)
  then have n: "sqrt ((cmod a / sqrt 8)\<^sup>2 + (cmod b / sqrt 8)\<^sup>2) = 1 / sqrt 8"
    by (simp only: real_sqrt_divide real_sqrt_one)
  show ?thesis
    unfolding steane_decode_def steane_state_projection0 steane_state_projection1
    by (simp add: np_sqrt_def s0 s1 n Let_def del: real_sqrt_divide)
qed

subsection \<open>The Shor state and projectors\<close>

lemma shor_projector_dims:
  "length (get_shor_projector b) = 512"
  "list_all (\<lambda>row. length row = 512) (get_shor_projector b)"
proof -
  let ?Z = "replicate 512 (replicate 512 (0::complex))"
  have rows0: "list_all (\<lambda>row. length row = 512)
      (fold (\<lambda>st proj. proj[st := (proj ! st)[st := 1 / 8]]) xs ?Z)" for xs :: "nat list"
    using fold_diag_update_rows[of 512 ?Z "\<lambda>x. x" "\<lambda>x. 1 / 8" xs, OF zero_matrix_rows] .
  have rows1: "list_all (\<lambda>row. length row = 512)
      (fold (\<lambda>(st, sign) proj. proj[st := (proj ! st)[st := 1 / 8 * sign]]) ys ?Z)"
    for ys :: "(nat \<times> complex) list"
    unfolding case_prod_unfold
    using fold_diag_update_rows[of 512 ?Z fst "\<lambda>x. 1 / 8 * snd x" ys, OF zero_matrix_rows] .
  have len0: "length (fold (\<lambda>st proj. proj[st := (proj ! st)[st := 1 / 8]]) xs ?Z) = 512"
    for xs :: "nat list"
    using fold_diag_update_length[of "\<lambda>x. x" "\<lambda>x. 1 / 8" xs ?Z] by (simp only: length_replicate)
  have len1: "length (fold (\<lambda>(st, sign) proj. proj[st := (proj ! st)[st := 1 / 8 * sign]]) ys ?Z)
      = 512" for ys :: "(nat \<times> complex) list"
    unfolding case_prod_unfold
    using fold_diag_update_length[of fst "\<lambda>x. 1 / 8 * snd x" ys ?Z] by (simp only: length_replicate)
  show "length (get_shor_projector b) = 512"
    by (cases "b = 0") (simp_all only: get_shor_projector_def if_True if_False if_P if_not_P simp_thms len0 len1)
  show "list_all (\<lambda>row. length row = 512) (get_shor_projector b)"
    by (cases "b = 0") (simp_all only: get_shor_projector_def if_True if_False if_P if_not_P simp_thms rows0 rows1)
qed

lemma shor_projector0_entry:
  assumes "i < 512" "j < 512"
  shows "get_shor_projector 0 ! i ! j
         = (if i = j then complex_of_real (if i \<in> set [0, 63, 455, 504] then 1 / 8 else 0) else 0)"
proof -
  let ?Z = "replicate 512 (replicate 512 (0::complex))"
  have "fold (\<lambda>st proj. proj[st := (proj ! st)[st := 1 / 8]]) [0, 63, 455, 504] ?Z ! i ! j
      = (if i = j \<and> i \<in> (\<lambda>x. x) ` set [0, 63, 455, 504] then 1 / 8 else ?Z ! i ! j)"
  proof (rule fold_diag_update_nth[where f = "\<lambda>x. x" and g = "\<lambda>x. 1 / 8" and h = "\<lambda>x. 1 / 8" and n = 512])
    show "list_all (\<lambda>row. length row = 512) ?Z" by (rule zero_matrix_rows)
  qed (simp_all add: assms)
  then show ?thesis using assms by (simp add: get_shor_projector_def del: fold_simps)
qed

lemma shor_projector1_entry:
  assumes "i < 512" "j < 512"
  shows "get_shor_projector 1 ! i ! j
         = (if i = j then complex_of_real (if i = 0 \<or> i = 504 then 1 / 8
                                           else if i = 63 \<or> i = 455 then - (1 / 8) else 0) else 0)"
proof -
  let ?Z = "replicate 512 (replicate 512 (0::complex))"
  let ?h = "\<lambda>i::nat. if i = 0 \<or> i = 504 then 1 / 8 else - (1 / 8) :: complex"
  have "fold (\<lambda>x proj. proj[fst x := (proj ! fst x)[fst x := 1 / 8 * snd x]])
          [(0, 1), (63, - 1), (455, - 1), (504, 1)] ?Z ! i ! j
      = (if i = j \<and> i \<in> fst ` set [(0, 1), (63, - 1), (455, - 1), (504, 1 :: complex)]
         then ?h i else ?Z ! i ! j)"
  proof (rule fold_diag_update_nth[where n = 512])
    show "list_all (\<lambda>row. length row = 512) ?Z" by (rule zero_matrix_rows)
    show "list_all (\<lambda>x. 1 / 8 * snd x = ?h (fst x)) [(0, 1), (63, - 1), (455, - 1), (504, 1 :: complex)]"
      by simp
  qed (simp_all add: assms)
  then show ?thesis using assms
    by (simp add: get_shor_projector_def case_prod_unfold del: fold_simps)
qed

lemma shor_projection0:
  assumes "length v = 512"
  shows "quad_form v (get_shor_projector 0)
         = Inr (complex_of_real (((cmod (v ! 0))\<^sup>2 + (cmod (v ! 63))\<^sup>2
                  + (cmod (v ! 455))\<^sup>2 + (cmod (v ! 504))\<^sup>2) / 8))"
proof -
  have "quad_form v (get_shor_projector 0)
      = Inr (complex_of_real (\<Sum>j<length v.
            (if j \<in> set [0, 63, 455, 504] then 1 / 8 else 0) * (cmod (v ! j))\<^sup>2))"
    by (rule quad_form_diag) (simp_all only: shor_projector_dims assms shor_projector0_entry)
  also have "(\<Sum>j<length v. (if j \<in> set [0, 63, 455, 504] then 1 / 8 else 0) * (cmod (v ! j))\<^sup>2)
      = (\<Sum>j<512. (if j \<in> set [0, 63, 455, 504] then 1 / 8 * (cmod (v ! j))\<^sup>2 else 0))"
    unfolding assms by (rule sum.cong) simp_all
  also have "\<dots> = (\<Sum>cw\<leftarrow>[0, 63, 455, 504]. 1 / 8 * (cmod (v ! cw))\<^sup>2)"
    by (rule sum_support) simp_all
  finally show ?thesis by simp
qed

lemma shor_projection1:
  assumes "length v = 512"
  shows "quad_form v (get_shor_projector 1)
         = Inr (complex_of_real (((cmod (v ! 0))\<^sup>2 - (cmod (v ! 63))\<^sup>2
                  - (cmod (v ! 455))\<^sup>2 + (cmod (v ! 504))\<^sup>2) / 8))"
proof -
  let ?r = "\<lambda>i::nat. if i = 0 \<or> i = 504 then 1 / 8 else if i = 63 \<or> i = 455 then - (1 / 8) else 0 :: real"
  have "quad_form v (get_shor_projector 1)
      = Inr (complex_of_real (\<Sum>j<length v. ?r j * (cmod (v ! j))\<^sup>2))"
    by (rule quad_form_diag) (simp_all only: shor_projector_dims assms shor_projector1_entry)
  also have "(\<Sum>j<length v. ?r j * (cmod (v ! j))\<^sup>2)
      = (\<Sum>j<512. (if j \<in> set [0, 63, 455, 504] then ?r j * (cmod (v ! j))\<^sup>2 else 0))"
    unfolding assms by (rule sum.cong) simp_all
  also have "\<dots> = (\<Sum>cw\<leftarrow>[0, 63, 455, 504]. ?r cw * (cmod (v ! cw))\<^sup>2)"
    by (rule sum_support) simp_all
  finally show ?thesis by simp
qed

lemma shor_state_length: "length (shor_state a b) = 512"
  by (simp add: shor_state_def shor_zero_terms_def shor_one_terms_def Let_def)

lemma shor_state_nth:
  "i < 512 \<Longrightarrow> shor_state a b ! i =
     (if i = 0 \<or> i = 504 then (a + b) / complex_of_real (2 * sqrt 2)
      else if i = 63 \<or> i = 455 then (a - b) / complex_of_real (2 * sqrt 2) else 0)"
  by (simp add: shor_state_def shor_zero_terms_def shor_one_terms_def Let_def nth_list_update
      add_divide_distrib diff_divide_distrib)

lemma shor_encode_eq: "shor_encode [a, b] = Inr (shor_state a b)"
  by (simp add: shor_encode_def)

lemma sum_list_map_nth: "sum_list (map f xs) = (\<Sum>i<length xs. f (xs ! i))"
proof -
  have "sum_list (map f xs) = (\<Sum>i = 0..<length (map f xs). map f xs ! i)"
    by (rule sum_list_sum_nth)
  also have "\<dots> = (\<Sum>i<length xs. f (xs ! i))"
    by (simp add: atLeast0LessThan)
  finally show ?thesis .
qed

lemma parallelogram: "(cmod (a + b))\<^sup>2 + (cmod (a - b))\<^sup>2 = 2 * ((cmod a)\<^sup>2 + (cmod b)\<^sup>2)"
  unfolding cmod_power2 by (simp add: power2_eq_square algebra_simps)

lemma polarization: "(cmod (a + b))\<^sup>2 - (cmod (a - b))\<^sup>2 = 4 * Re (a * cnj b)"
  unfolding cmod_power2 by (simp add: power2_eq_square algebra_simps)

lemma cmod_shor_amp: "(cmod (z / complex_of_real (2 * sqrt 2)))\<^sup>2 = (cmod z)\<^sup>2 / 8"
proof -
  have "cmod (z / complex_of_real (2 * sqrt 2)) = cmod z / (2 * sqrt 2)"
    by (simp only: norm_divide norm_of_real) simp
  then show ?thesis by (simp add: power_divide power_mult_distrib)
qed

lemma shor_state_sq:
  "(cmod (shor_state a b ! 0))\<^sup>2 = (cmod (a + b))\<^sup>2 / 8"
  "(cmod (shor_state a b ! 63))\<^sup>2 = (cmod (a - b))\<^sup>2 / 8"
  "(cmod (shor_state a b ! 455))\<^sup>2 = (cmod (a - b))\<^sup>2 / 8"
  "(cmod (shor_state a b ! 504))\<^sup>2 = (cmod (a + b))\<^sup>2 / 8"
proof -
  have n: "shor_state a b ! 0 = (a + b) / complex_of_real (2 * sqrt 2)"
    "shor_state a b ! 63 = (a - b) / complex_of_real (2 * sqrt 2)"
    "shor_state a b ! 455 = (a - b) / complex_of_real (2 * sqrt 2)"
    "shor_state a b ! 504 = (a + b) / complex_of_real (2 * sqrt 2)"
    by (subst shor_state_nth; simp)+
  show "(cmod (shor_state a b ! 0))\<^sup>2 = (cmod (a + b))\<^sup>2 / 8"
    "(cmod (shor_state a b ! 63))\<^sup>2 = (cmod (a - b))\<^sup>2 / 8"
    "(cmod (shor_state a b ! 455))\<^sup>2 = (cmod (a - b))\<^sup>2 / 8"
    "(cmod (shor_state a b ! 504))\<^sup>2 = (cmod (a + b))\<^sup>2 / 8"
    by (simp_all only: n cmod_shor_amp)
qed

lemma shor_state_normsq:
  "(\<Sum>x\<leftarrow>shor_state a b. (cmod x)\<^sup>2) = ((cmod a)\<^sup>2 + (cmod b)\<^sup>2) / 2"
proof -
  let ?F = "\<lambda>i. (cmod (shor_state a b ! i))\<^sup>2"
  have "(\<Sum>x\<leftarrow>shor_state a b. (cmod x)\<^sup>2) = (\<Sum>i<512. ?F i)"
    by (simp add: sum_list_map_nth shor_state_length)
  also have "\<dots> = (\<Sum>i<512. if i \<in> set [0, 63, 455, 504] then ?F i else 0)"
    by (rule sum.cong) (auto simp: shor_state_nth)
  also have "\<dots> = (\<Sum>i\<leftarrow>[0, 63, 455, 504]. ?F i)"
    by (rule sum_support) simp_all
  also have "\<dots> = ?F 0 + ?F 63 + ?F 455 + ?F 504"
    by simp
  also have "\<dots> = ((cmod (a + b))\<^sup>2 + (cmod (a - b))\<^sup>2) / 4"
    unfolding shor_state_sq by simp
  also have "\<dots> = ((cmod a)\<^sup>2 + (cmod b)\<^sup>2) / 2"
    unfolding parallelogram by simp
  finally show ?thesis .
qed

lemma shor_state_vnorm: "vnorm (shor_state a b) = sqrt (((cmod a)\<^sup>2 + (cmod b)\<^sup>2) / 2)"
  by (simp only: vnorm_def shor_state_normsq)

lemma shor_state_projection0:
  "quad_form (shor_state a b) (get_shor_projector 0)
     = Inr (complex_of_real (((cmod a)\<^sup>2 + (cmod b)\<^sup>2) / 16))"
proof -
  have "((cmod (a + b))\<^sup>2 / 8 + (cmod (a - b))\<^sup>2 / 8 + (cmod (a - b))\<^sup>2 / 8 + (cmod (a + b))\<^sup>2 / 8) / 8
      = ((cmod (a + b))\<^sup>2 + (cmod (a - b))\<^sup>2) / 32" by simp
  also have "\<dots> = ((cmod a)\<^sup>2 + (cmod b)\<^sup>2) / 16" unfolding parallelogram by simp
  finally have e: "((cmod (a + b))\<^sup>2 / 8 + (cmod (a - b))\<^sup>2 / 8 + (cmod (a - b))\<^sup>2 / 8 + (cmod (a + b))\<^sup>2 / 8) / 8
      = ((cmod a)\<^sup>2 + (cmod b)\<^sup>2) / 16" .
  show ?thesis
    by (simp only: shor_projection0[OF shor_state_length] shor_state_sq e)
qed

lemma shor_state_projection1:
  "quad_form (shor_state a b) (get_shor_projector 1) = Inr (complex_of_real (Re (a * cnj b) / 8))"
proof -
  have "((cmod (a + b))\<^sup>2 / 8 - (cmod (a - b))\<^sup>2 / 8 - (cmod (a - b))\<^sup>2 / 8 + (cmod (a + b))\<^sup>2 / 8) / 8
      = ((cmod (a + b))\<^sup>2 - (cmod (a - b))\<^sup>2) / 32" by simp
  also have "\<dots> = Re (a * cnj b) / 8" unfolding polarization by simp
  finally have e: "((cmod (a + b))\<^sup>2 / 8 - (cmod (a - b))\<^sup>2 / 8 - (cmod (a - b))\<^sup>2 / 8 + (cmod (a + b))\<^sup>2 / 8) / 8
      = Re (a * cnj b) / 8" .
  show ?thesis
    by (simp only: shor_projection1[OF shor_state_length] shor_state_sq e)
qed

lemma sqrt16: "sqrt 16 = 4"
proof -
  have "sqrt 16 = sqrt (4\<^sup>2)" by simp
  also have "\<dots> = 4" using real_sqrt_abs[of 4] by simp
  finally show ?thesis .
qed

lemma sqrt8: "sqrt 8 = 2 * sqrt 2"
proof -
  have "sqrt 8 = sqrt (4 * 2)" by simp
  also have "\<dots> = 2 * sqrt 2" by (simp only: real_sqrt_mult) simp
  finally show ?thesis .
qed

text \<open>The common tail of both decoders, as a function of the two projections.\<close>

lemma decode_tail_value:
  assumes "0 \<le> p0" "0 \<le> p1" "0 < p0 + p1"
  shows "(case np_sqrt p0 of
            None \<Rightarrow> Inr [1, 0]
          | Some z \<Rightarrow>
              (case np_sqrt p1 of
                 None \<Rightarrow> Inr [1, 0]
               | Some w \<Rightarrow>
                   (let nrm = sqrt (z\<^sup>2 + w\<^sup>2)
                    in if nrm > 0
                       then Inr [complex_of_real (z / nrm), complex_of_real (w / nrm)]
                       else Inr [1, 0])))
         = (Inr [complex_of_real (sqrt (p0 / (p0 + p1))), complex_of_real (sqrt (p1 / (p0 + p1)))]
             :: error + cvec)"
proof -
  have z: "(sqrt p0)\<^sup>2 = p0" and w: "(sqrt p1)\<^sup>2 = p1" using assms by simp_all
  have pos: "0 < sqrt (p0 + p1)" using assms(3) by simp
  show ?thesis
    using assms pos by (simp add: np_sqrt_def z w Let_def real_sqrt_divide)
qed

lemma decode_tail_zero:
  "(case np_sqrt 0 of
            None \<Rightarrow> Inr [1, 0]
          | Some z \<Rightarrow>
              (case np_sqrt 0 of
                 None \<Rightarrow> Inr [1, 0]
               | Some w \<Rightarrow>
                   (let nrm = sqrt (z\<^sup>2 + w\<^sup>2)
                    in if nrm > 0
                       then Inr [complex_of_real (z / nrm), complex_of_real (w / nrm)]
                       else Inr [1, 0])))
         = (Inr [1, 0] :: error + cvec)"
  by (simp add: np_sqrt_def)

lemma shor_decode_state:
  assumes "(cmod a)\<^sup>2 + (cmod b)\<^sup>2 = 1" and "0 \<le> Re (a * cnj b)"
  shows "shor_decode (shor_state a b)
     = Inr [complex_of_real (sqrt ((1 / 16) / (1 / 16 + Re (a * cnj b) / 8))),
            complex_of_real (sqrt ((Re (a * cnj b) / 8) / (1 / 16 + Re (a * cnj b) / 8)))]"
proof -
  have p: "(0::real) \<le> 1 / 16" "0 \<le> Re (a * cnj b) / 8" "0 < 1 / 16 + Re (a * cnj b) / 8"
    using assms(2) by linarith+
  show ?thesis
    unfolding shor_decode_def shor_state_projection0 shor_state_projection1 assms(1)
      sum.case Re_complex_of_real
    by (rule decode_tail_value[OF p])
qed

lemma shor_decode_state_real:
  "shor_decode (shor_state 1 0) = Inr [1, 0]"
  "shor_decode (shor_state 0 1) = Inr [1, 0]"
  by (subst shor_decode_state; simp)+

lemma shor_decode_plus:
  "shor_decode (shor_state (1 / complex_of_real (sqrt 2)) (1 / complex_of_real (sqrt 2)))
     = Inr [1 / complex_of_real (sqrt 2), 1 / complex_of_real (sqrt 2)]"
proof -
  let ?h = "1 / complex_of_real (sqrt 2)"
  have c: "(cmod ?h)\<^sup>2 = 1 / 2"
  proof -
    have "cmod ?h = 1 / sqrt 2" by (simp only: norm_divide norm_of_real norm_one) simp
    then show ?thesis by (simp add: power_divide)
  qed
  have r: "Re (?h * cnj ?h) = 1 / 2"
  proof -
    have "?h * cnj ?h = complex_of_real ((cmod ?h)\<^sup>2)" by (rule complex_norm_square[symmetric])
    then have "Re (?h * cnj ?h) = (cmod ?h)\<^sup>2" by (simp only: Re_complex_of_real)
    then show ?thesis by (simp only: c)
  qed
  have n: "(cmod ?h)\<^sup>2 + (cmod ?h)\<^sup>2 = 1" unfolding c by simp
  have pos: "0 \<le> Re (?h * cnj ?h)" unfolding r by simp
  have v: "sqrt ((1 / 16) / (1 / 16 + (1 / 2) / 8)) = 1 / sqrt 2"
  proof -
    have "(1 / 16) / (1 / 16 + (1 / 2) / 8) = (1 / 2 :: real)" by simp
    then have "sqrt ((1 / 16) / (1 / 16 + (1 / 2) / 8)) = sqrt (1 / 2)" by (simp only:)
    also have "\<dots> = 1 / sqrt 2" by (simp only: real_sqrt_divide real_sqrt_one)
    finally show ?thesis .
  qed
  have v2: "sqrt (((1 / 2) / 8) / (1 / 16 + (1 / 2) / 8)) = 1 / sqrt 2"
  proof -
    have "((1 / 2) / 8) / (1 / 16 + (1 / 2) / 8) = (1 / 2 :: real)" by simp
    then have "sqrt (((1 / 2) / 8) / (1 / 16 + (1 / 2) / 8)) = sqrt (1 / 2)" by (simp only:)
    also have "\<dots> = 1 / sqrt 2" by (simp only: real_sqrt_divide real_sqrt_one)
    finally show ?thesis .
  qed
  show ?thesis
    by (simp only: shor_decode_state[OF n pos] r v v2 of_real_divide of_real_1)
qed

text \<open>
  C6. The claim: the Shor encoding of a normalized logical state has Euclidean norm 1.
  The code stores four amplitudes of modulus \<open>1/(2 sqrt 2)\<close> for the logical state
  \<open>[1, 0]\<close> (the comment of the source describes the eight-term product state): the norm
  is \<open>sqrt (1/2)\<close>.
\<close>

theorem shor_encode_norm_half:
  "shor_encode [1, 0] = Inr (shor_state 1 0) \<and> vnorm (shor_state 1 0) = sqrt (1 / 2)"
  by (simp add: shor_encode_eq shor_state_vnorm)

subsection \<open>Decoding returns a normalised non-negative state\<close>

lemma decode_tail:
  fixes p0 p1 :: real
  shows "\<exists>a b. (case np_sqrt p0 of
                  None \<Rightarrow> Inr [1, 0]
                | Some z \<Rightarrow>
                    (case np_sqrt p1 of
                       None \<Rightarrow> Inr [1, 0]
                     | Some w \<Rightarrow>
                         (let nrm = sqrt (z\<^sup>2 + w\<^sup>2)
                          in if nrm > 0
                             then Inr [complex_of_real (z / nrm),
                                       complex_of_real (w / nrm)]
                             else Inr [1, 0]))) = (Inr [complex_of_real a, complex_of_real b] :: error + cvec)
            \<and> 0 \<le> a \<and> 0 \<le> b \<and> vnorm [complex_of_real a, complex_of_real b] = 1"
proof (cases "p0 < 0 \<or> p1 < 0 \<or> \<not> sqrt ((sqrt p0)\<^sup>2 + (sqrt p1)\<^sup>2) > 0")
  case True
  have "(Inr [1, 0] :: error + cvec) = Inr [complex_of_real 1, complex_of_real 0] \<and> (0::real) \<le> 1 \<and> (0::real) \<le> 0
     \<and> vnorm [complex_of_real 1, complex_of_real 0] = 1"
    by (simp add: vnorm_def)
  moreover have "(case np_sqrt p0 of
                  None \<Rightarrow> Inr [1, 0]
                | Some z \<Rightarrow>
                    (case np_sqrt p1 of
                       None \<Rightarrow> Inr [1, 0]
                     | Some w \<Rightarrow>
                         (let nrm = sqrt (z\<^sup>2 + w\<^sup>2)
                          in if nrm > 0
                             then Inr [complex_of_real (z / nrm),
                                       complex_of_real (w / nrm)]
                             else Inr [1, 0]))) = (Inr [1, 0] :: error + cvec)"
    using True by (auto simp: np_sqrt_def Let_def)
  ultimately show ?thesis by metis
next
  case False
  define z where "z = sqrt p0"
  define w where "w = sqrt p1"
  define nrm where "nrm = sqrt (z\<^sup>2 + w\<^sup>2)"
  from False have pos: "0 \<le> p0" "0 \<le> p1" "nrm > 0" by (auto simp: z_def w_def nrm_def)
  have zw: "0 \<le> z" "0 \<le> w" using pos by (simp_all add: z_def w_def)
  have nn: "nrm\<^sup>2 = z\<^sup>2 + w\<^sup>2" unfolding nrm_def by simp
  have "(z / nrm)\<^sup>2 + (w / nrm)\<^sup>2 = (z\<^sup>2 + w\<^sup>2) / nrm\<^sup>2"
    by (simp add: power_divide add_divide_distrib)
  also have "\<dots> = nrm\<^sup>2 / nrm\<^sup>2" using nn by simp
  also have "\<dots> = 1" using pos(3) by simp
  finally have one: "(z / nrm)\<^sup>2 + (w / nrm)\<^sup>2 = 1" .
  have vn: "vnorm [complex_of_real (z / nrm), complex_of_real (w / nrm)] = 1"
    using one by (simp add: vnorm_def norm_divide power_divide)
  have "(case np_sqrt p0 of
                  None \<Rightarrow> Inr [1, 0]
                | Some z \<Rightarrow>
                    (case np_sqrt p1 of
                       None \<Rightarrow> Inr [1, 0]
                     | Some w \<Rightarrow>
                         (let nrm = sqrt (z\<^sup>2 + w\<^sup>2)
                          in if nrm > 0
                             then Inr [complex_of_real (z / nrm),
                                       complex_of_real (w / nrm)]
                             else Inr [1, 0]))) = (Inr [complex_of_real (z / nrm), complex_of_real (w / nrm)] :: error + cvec)"
    using False by (auto simp: np_sqrt_def Let_def z_def w_def nrm_def)
  moreover have "0 \<le> z / nrm" "0 \<le> w / nrm" using zw pos(3) by simp_all
  ultimately show ?thesis using vn by blast
qed


lemma quad_form_returns:
  "length M = length v \<Longrightarrow> list_all (\<lambda>row. length row = length v) M \<Longrightarrow> \<exists>e. quad_form v M = Inr e"
  by (simp add: quad_form_def Let_def)

lemma steane_decode_shape:
  assumes "length v = 128"
  shows "\<exists>a b. steane_decode v = Inr [complex_of_real a, complex_of_real b]
            \<and> 0 \<le> a \<and> 0 \<le> b \<and> vnorm [complex_of_real a, complex_of_real b] = 1"
proof -
  obtain e0 where e0: "quad_form v (get_logical_projector 0) = Inr e0"
    using quad_form_returns[of "get_logical_projector 0" v] projector_dims[of 0] assms
    by (auto simp only:)
  obtain e1 where e1: "quad_form v (get_logical_projector 1) = Inr e1"
    using quad_form_returns[of "get_logical_projector 1" v] projector_dims[of 1] assms
    by (auto simp only:)
  show ?thesis
    unfolding steane_decode_def e0 e1 sum.case
    by (rule decode_tail)
qed

lemma shor_decode_shape:
  assumes "length v = 512"
  shows "\<exists>a b. shor_decode v = Inr [complex_of_real a, complex_of_real b]
            \<and> 0 \<le> a \<and> 0 \<le> b \<and> vnorm [complex_of_real a, complex_of_real b] = 1"
proof -
  obtain e0 where e0: "quad_form v (get_shor_projector 0) = Inr e0"
    using quad_form_returns[of "get_shor_projector 0" v] shor_projector_dims[of 0] assms
    by (auto simp only:)
  obtain e1 where e1: "quad_form v (get_shor_projector 1) = Inr e1"
    using quad_form_returns[of "get_shor_projector 1" v] shor_projector_dims[of 1] assms
    by (auto simp only:)
  show ?thesis
    unfolding shor_decode_def e0 e1 sum.case
    by (rule decode_tail)
qed

lemma surface_decode_shape:
  "\<exists>a b. surface_decode v = [complex_of_real a, complex_of_real b]
            \<and> 0 \<le> a \<and> 0 \<le> b \<and> vnorm [complex_of_real a, complex_of_real b] = 1"
proof -
  have "surface_decode v = [complex_of_real 1, complex_of_real 0] \<and> (0::real) \<le> 1 \<and> (0::real) \<le> 0
     \<and> vnorm [complex_of_real 1, complex_of_real 0] = 1"
    by (simp add: surface_decode_def vnorm_def)
  then show ?thesis by blast
qed

text \<open>
  C10. For every physical state vector of the code's size (\<open>2^7\<close> entries for Steane,
  \<open>2^9\<close> for Shor, any for the surface code), \<open>decode\<close> returns two real, non-negative
  components of Euclidean norm 1.
\<close>

theorem decode_real_nonnegative_unit:
  "(length v7 = 128 \<longrightarrow>
      (\<exists>a b. steane_decode v7 = Inr [complex_of_real a, complex_of_real b]
         \<and> 0 \<le> a \<and> 0 \<le> b \<and> vnorm [complex_of_real a, complex_of_real b] = 1))
   \<and> (length v9 = 512 \<longrightarrow>
      (\<exists>a b. shor_decode v9 = Inr [complex_of_real a, complex_of_real b]
         \<and> 0 \<le> a \<and> 0 \<le> b \<and> vnorm [complex_of_real a, complex_of_real b] = 1))
   \<and> (\<exists>a b. surface_decode vs = [complex_of_real a, complex_of_real b]
         \<and> 0 \<le> a \<and> 0 \<le> b \<and> vnorm [complex_of_real a, complex_of_real b] = 1)"
  using steane_decode_shape[of v7] shor_decode_shape[of v9] surface_decode_shape[of vs]
  by blast

theorem decode_real_nonnegative_unit_witness:
  "length (replicate 128 (\<i> / 2)) = 128
   \<and> (\<exists>a b. steane_decode (replicate 128 (\<i> / 2)) = Inr [complex_of_real a, complex_of_real b]
         \<and> 0 \<le> a \<and> 0 \<le> b \<and> vnorm [complex_of_real a, complex_of_real b] = 1)
   \<and> length (replicate 512 (\<i> / 2)) = 512
   \<and> (\<exists>a b. shor_decode (replicate 512 (\<i> / 2)) = Inr [complex_of_real a, complex_of_real b]
         \<and> 0 \<le> a \<and> 0 \<le> b \<and> vnorm [complex_of_real a, complex_of_real b] = 1)
   \<and> (\<exists>a b. surface_decode [\<i>, 0] = [complex_of_real a, complex_of_real b]
         \<and> 0 \<le> a \<and> 0 \<le> b \<and> vnorm [complex_of_real a, complex_of_real b] = 1)"
proof -
  have h: "length (replicate 128 (\<i> / 2)) = 128" "length (replicate 512 (\<i> / 2)) = 512"
    by (simp_all only: length_replicate)
  from decode_real_nonnegative_unit[of "replicate 128 (\<i> / 2)" "replicate 512 (\<i> / 2)" "[\<i>, 0]"] h
  show ?thesis by blast
qed

subsection \<open>Encoding followed by decoding\<close>

lemma and_then_Inr [simp]: "and_then (Inr x) f = f x"
  by (simp add: and_then_def)

lemma and_then_Inl [simp]: "and_then (Inl e) f = Inl e"
  by (simp add: and_then_def)

lemma fidelity_pair:
  "fidelity [a, b] [c, d] = Inr ((cmod (cnj a * c + cnj b * d))\<^sup>2)"
  by (simp add: fidelity_def vdot_def)

lemma re_eq_cmod_iff: "Re z = cmod z \<longleftrightarrow> nnr z"
proof
  assume h: "Re z = cmod z"
  then have "(Re z)\<^sup>2 = (cmod z)\<^sup>2" by simp
  then have "(Im z)\<^sup>2 = 0" unfolding cmod_power2 by simp
  then have "Im z = 0" by simp
  moreover have "0 \<le> Re z" using h by simp
  ultimately show "nnr z" by (simp add: nnr_def)
next
  assume "nnr z"
  then show "Re z = cmod z" by (simp add: nnr_def cmod_eq_Re)
qed

lemma cmod_add_sq: "(cmod (u + v))\<^sup>2 = (cmod u)\<^sup>2 + (cmod v)\<^sup>2 + 2 * Re (u * cnj v)"
  unfolding cmod_power2 by (simp add: power2_eq_square algebra_simps)

lemma moduli_overlap:
  "(cmod (cnj a * complex_of_real (cmod a) + cnj b * complex_of_real (cmod b)))\<^sup>2
     = ((cmod a)\<^sup>2 + (cmod b)\<^sup>2)\<^sup>2
       - 2 * cmod (cnj a * b) * (cmod (cnj a * b) - Re (cnj a * b))"
proof -
  let ?u = "cnj a * complex_of_real (cmod a)" and ?v = "cnj b * complex_of_real (cmod b)"
  have "(cmod (?u + ?v))\<^sup>2 = (cmod ?u)\<^sup>2 + (cmod ?v)\<^sup>2 + 2 * Re (?u * cnj ?v)"
    by (rule cmod_add_sq)
  moreover have "cmod ?u = (cmod a)\<^sup>2" "cmod ?v = (cmod b)\<^sup>2"
    by (simp_all add: norm_mult power2_eq_square)
  moreover have "Re (?u * cnj ?v) = cmod a * cmod b * Re (cnj a * b)"
    by (simp add: algebra_simps)
  moreover have "cmod (cnj a * b) = cmod a * cmod b"
    by (simp add: norm_mult)
  ultimately show ?thesis
    by (simp add: power2_eq_square algebra_simps)
qed

lemma moduli_overlap_one:
  assumes "(cmod a)\<^sup>2 + (cmod b)\<^sup>2 = 1"
  shows "(cmod (cnj a * complex_of_real (cmod a) + cnj b * complex_of_real (cmod b)))\<^sup>2 = 1
         \<longleftrightarrow> nnr (cnj a * b)"
proof -
  let ?z = "cnj a * b"
  have "(cmod (cnj a * complex_of_real (cmod a) + cnj b * complex_of_real (cmod b)))\<^sup>2 = 1
        \<longleftrightarrow> cmod ?z * (cmod ?z - Re ?z) = 0"
    unfolding moduli_overlap assms by simp
  also have "\<dots> \<longleftrightarrow> cmod ?z = 0 \<or> Re ?z = cmod ?z" by auto
  also have "\<dots> \<longleftrightarrow> nnr ?z"
  proof
    assume "cmod ?z = 0 \<or> Re ?z = cmod ?z"
    then show "nnr ?z"
    proof
      assume "cmod ?z = 0"
      then have "?z = 0" by (simp only: norm_eq_zero)
      then show ?thesis by (simp only: nnr_def) simp
    next
      assume "Re ?z = cmod ?z"
      then show ?thesis by (simp only: re_eq_cmod_iff)
    qed
  next
    assume "nnr ?z"
    then show "cmod ?z = 0 \<or> Re ?z = cmod ?z" by (simp only: re_eq_cmod_iff) simp
  qed
  finally show ?thesis .
qed

text \<open>
  C3, amended. For every normalized logical state \<open>[a, b]\<close>, Steane encoding followed by
  decoding has fidelity 1 with the logical state exactly when the two amplitudes have a
  common phase, that is when \<open>conj(a) * b\<close> is real and not negative (in particular when
  one of them is 0). \<open>decode\<close> returns the moduli \<open>[|a|, |b|]\<close>, so nothing but the
  relative phase is lost.
\<close>

theorem encode_decode_fidelity:
  assumes "(cmod a)\<^sup>2 + (cmod b)\<^sup>2 = 1"
  shows "and_then (and_then (steane_encode [a, b]) steane_decode) (fidelity [a, b]) = Inr 1
         \<longleftrightarrow> nnr (cnj a * b)"
  by (simp only: steane_encode_eq and_then_Inr steane_roundtrip[OF assms] fidelity_pair
      sum.inject moduli_overlap_one[OF assms])

theorem encode_decode_fidelity_witness:
  "(cmod (3 / 5 * \<i>))\<^sup>2 + (cmod (4 / 5 * \<i>))\<^sup>2 = 1
   \<and> nnr (cnj (3 / 5 * \<i>) * (4 / 5 * \<i>))
   \<and> and_then (and_then (steane_encode [3 / 5 * \<i>, 4 / 5 * \<i>]) steane_decode)
        (fidelity [3 / 5 * \<i>, 4 / 5 * \<i>]) = Inr 1"
proof -
  have n: "(cmod (3 / 5 * \<i>))\<^sup>2 + (cmod (4 / 5 * \<i>))\<^sup>2 = 1"
    by (simp add: norm_mult norm_divide power2_eq_square)
  have p: "nnr (cnj (3 / 5 * \<i>) * (4 / 5 * \<i>))"
    by (simp add: nnr_def)
  from encode_decode_fidelity[OF n] n p show ?thesis by blast
qed

text \<open>
  C3, as the claim states it, fails: \<open>decode\<close> returns the moduli of the amplitudes, so
  the normalized state \<open>[3/5, -4/5]\<close> comes back from the Steane code as \<open>[3/5, 4/5]\<close>
  with fidelity \<open>49/625\<close>.
\<close>

theorem encode_decode_fidelity_counterexample:
  "(cmod (3 / 5))\<^sup>2 + (cmod (- 4 / 5))\<^sup>2 = 1
   \<and> and_then (and_then (steane_encode [3 / 5, - 4 / 5]) steane_decode) (fidelity [3 / 5, - 4 / 5])
       = Inr (49 / 625)"
proof -
  have n: "(cmod (3 / 5))\<^sup>2 + (cmod (- 4 / 5))\<^sup>2 = 1"
    by (simp add: norm_divide power2_eq_square)
  have m: "cmod (3 / 5) = 3 / 5" "cmod (- 4 / 5) = 4 / 5"
    by (simp_all add: norm_divide)
  have "cnj (3 / 5) * complex_of_real (3 / 5) + cnj (- 4 / 5) * complex_of_real (4 / 5)
      = complex_of_real (- 7 / 25)"
    by simp
  then have f: "(cmod (cnj (3 / 5) * complex_of_real (3 / 5)
                   + cnj (- 4 / 5) * complex_of_real (4 / 5)))\<^sup>2 = 49 / 625"
    by (simp only: norm_of_real) (simp add: power2_eq_square)
  have st: "and_then (and_then (steane_encode [3 / 5, - 4 / 5]) steane_decode)
      (fidelity [3 / 5, - 4 / 5]) = Inr (49 / 625)"
    by (simp only: steane_encode_eq and_then_Inr steane_roundtrip[OF n] m fidelity_pair f)
  show ?thesis using n st by simp
qed

text \<open>
  The Shor code on the two basis states: the encoded \<open>[1, 0]\<close> and the encoded \<open>[0, 1]\<close>
  are both decoded to \<open>[1, 0]\<close>.
\<close>

lemma shor_roundtrip_basis:
  "and_then (and_then (shor_encode [1, 0]) shor_decode) (fidelity [1, 0]) = Inr 1"
  "and_then (and_then (shor_encode [0, 1]) shor_decode) (fidelity [0, 1]) = Inr 0"
  by (simp_all add: shor_encode_eq shor_decode_state_real fidelity_pair)

subsection \<open>Kronecker products and Pauli operators\<close>

lemma nrows_is_mat: "is_mat r c A \<Longrightarrow> nrows A = r"
  by (simp add: is_mat_def nrows_def)

lemma ncols_is_mat: "is_mat r c A \<Longrightarrow> 0 < r \<Longrightarrow> ncols A = c"
  by (cases A) (simp_all add: is_mat_def ncols_def)

lemma is_mat_nth_length: "is_mat r c A \<Longrightarrow> i < r \<Longrightarrow> length (A ! i) = c"
  by (simp add: is_mat_def list_all_length)

lemma kron_is_mat:
  assumes "is_mat rA cA A" "is_mat rB cB B" "0 < rA" "0 < rB"
  shows "is_mat (rA * rB) (cA * cB) (kron A B)"
  using assms
  by (simp add: is_mat_def kron_def list_all_length nrows_is_mat[OF assms(1)]
      nrows_is_mat[OF assms(2)] ncols_is_mat[OF assms(1)] ncols_is_mat[OF assms(2)])

lemma kron_nth:
  assumes "is_mat rA cA A" "is_mat rB cB B" "0 < rA" "0 < rB" "i < rA * rB" "j < cA * cB"
  shows "kron A B ! i ! j = A ! (i div rB) ! (j div cB) * B ! (i mod rB) ! (j mod cB)"
  using assms(5,6)
  by (simp add: kron_def nrows_is_mat[OF assms(1)]
      nrows_is_mat[OF assms(2)] ncols_is_mat[OF assms(1) assms(3)] ncols_is_mat[OF assms(2) assms(4)])

lemma pauli_operator_Nil: "pauli_operator [] t = [[1]]"
  by (simp add: pauli_operator_def)

lemma pauli_operator_snoc:
  "pauli_operator (bs @ [b]) t =
     kron (pauli_operator bs t)
       (if b = 1 then (if t = ''X'' then [[0, 1], [1, 0]] else [[1, 0], [0, - 1]])
        else [[1, 0], [0, 1]])"
  by (simp add: pauli_operator_def Let_def)

lemma is_mat_2x2: "is_mat 2 2 [[a, b], [c, d]]"
  by (simp add: is_mat_def)

lemma half_less: "i < 2 * m \<Longrightarrow> i div 2 < (m::nat)"
  by auto

lemma pauli_operator_is_mat: "is_mat (2 ^ length bs) (2 ^ length bs) (pauli_operator bs t)"
proof (induction bs rule: rev_induct)
  case Nil
  show ?case by (simp add: pauli_operator_Nil is_mat_def)
next
  case (snoc b bs)
  have "is_mat (2 ^ length bs * 2) (2 ^ length bs * 2) (pauli_operator (bs @ [b]) t)"
    unfolding pauli_operator_snoc
    by (rule kron_is_mat[OF snoc.IH]) (simp_all add: is_mat_2x2)
  then show ?case by (simp add: mult.commute)
qed

lemma z_factor_nth:
  assumes "a < 2" "c < 2"
  shows "(if b = 1 then [[1, 0], [0, - 1]] else [[1, 0], [0, 1 :: complex]]) ! a ! c
         = (if a = c then complex_of_real (if b = (1::nat) \<and> a = 1 then - 1 else 1) else 0)"
proof -
  from assms have "a = 0 \<or> a = 1" "c = 0 \<or> c = 1" by auto
  then show ?thesis by auto
qed

lemma div_mod_2_eq: "(i div 2 = j div 2 \<and> i mod 2 = j mod 2) \<longleftrightarrow> i = (j::nat)"
  by (metis div_mult_mod_eq)

lemma pauli_z_entry:
  assumes "t \<noteq> ''X''"
  shows "i < 2 ^ length bs \<Longrightarrow> j < 2 ^ length bs \<Longrightarrow>
     pauli_operator bs t ! i ! j
       = (if i = j then complex_of_real (z_sign_rev (rev bs) i) else 0)"
proof (induction bs arbitrary: i j rule: rev_induct)
  case Nil
  then show ?case by (simp add: pauli_operator_Nil)
next
  case (snoc b bs)
  let ?n = "2 ^ length bs :: nat"
  let ?B = "if b = 1 then [[1, 0], [0, - 1]] else [[1, 0], [0, 1 :: complex]]"
  from snoc.prems have ij: "i < ?n * 2" "j < ?n * 2" by simp_all
  then have h: "i div 2 < ?n" "j div 2 < ?n" by auto
  have B: "is_mat 2 2 ?B" by (simp add: is_mat_def)
  have "pauli_operator (bs @ [b]) t ! i ! j = kron (pauli_operator bs t) ?B ! i ! j"
    using assms by (simp add: pauli_operator_snoc)
  also have "\<dots> = pauli_operator bs t ! (i div 2) ! (j div 2) * ?B ! (i mod 2) ! (j mod 2)"
    by (rule kron_nth[OF pauli_operator_is_mat B _ _ ij]) simp_all
  also have "pauli_operator bs t ! (i div 2) ! (j div 2)
      = (if i div 2 = j div 2 then complex_of_real (z_sign_rev (rev bs) (i div 2)) else 0)"
    by (rule snoc.IH[OF h])
  also have "?B ! (i mod 2) ! (j mod 2)
      = (if i mod 2 = j mod 2 then complex_of_real (if b = 1 \<and> i mod 2 = 1 then - 1 else 1) else 0)"
    by (rule z_factor_nth) simp_all
  finally show ?case
    using div_mod_2_eq[of i j] by (auto simp: odd_iff_mod_2_eq_one)
qed

lemma nnr_simps [simp]: "nnr 0" "nnr 1"
  by (simp_all add: nnr_def)

lemma nnr_mult: "nnr a \<Longrightarrow> nnr b \<Longrightarrow> nnr (a * b)"
  by (simp add: nnr_def)

lemma nnr_add: "nnr a \<Longrightarrow> nnr b \<Longrightarrow> nnr (a + b)"
  by (simp add: nnr_def)

lemma nnr_cnj: "nnr a \<Longrightarrow> nnr (cnj a)"
  by (simp add: nnr_def)

lemma nnr_sum_list: "list_all nnr xs \<Longrightarrow> nnr (sum_list xs)"
  by (induction xs) (simp_all add: nnr_add)

lemma x_factor_nnr:
  assumes "a < 2" "c < 2"
  shows "nnr ((if b = (1::nat) then [[0, 1], [1, 0]] else [[1, 0], [0, 1 :: complex]]) ! a ! c)"
proof -
  from assms have "a = 0 \<or> a = 1" "c = 0 \<or> c = 1" by auto
  then show ?thesis by auto
qed

lemma pauli_x_entry:
  "i < 2 ^ length bs \<Longrightarrow> j < 2 ^ length bs \<Longrightarrow> nnr (pauli_operator bs ''X'' ! i ! j)"
proof (induction bs arbitrary: i j rule: rev_induct)
  case Nil
  then show ?case by (simp add: pauli_operator_Nil)
next
  case (snoc b bs)
  let ?n = "2 ^ length bs :: nat"
  let ?B = "if b = 1 then [[0, 1], [1, 0]] else [[1, 0], [0, 1 :: complex]]"
  from snoc.prems have ij: "i < ?n * 2" "j < ?n * 2" by simp_all
  then have h: "i div 2 < ?n" "j div 2 < ?n" by auto
  have B: "is_mat 2 2 ?B" by (simp add: is_mat_def)
  have "pauli_operator (bs @ [b]) ''X'' ! i ! j = kron (pauli_operator bs ''X'') ?B ! i ! j"
    by (simp add: pauli_operator_snoc)
  also have "\<dots> = pauli_operator bs ''X'' ! (i div 2) ! (j div 2) * ?B ! (i mod 2) ! (j mod 2)"
    by (rule kron_nth[OF pauli_operator_is_mat B _ _ ij]) simp_all
  finally show ?case
    using snoc.IH[OF h] x_factor_nnr[of "i mod 2" "j mod 2" b] by (simp add: nnr_mult)
qed

lemma quad_form_nnr:
  assumes M: "is_mat (length v) (length v) M"
    and v: "list_all nnr v"
    and e: "\<And>i j. i < length v \<Longrightarrow> j < length v \<Longrightarrow> nnr (M ! i ! j)"
  shows "\<exists>z. quad_form v M = Inr z \<and> 0 \<le> Re z"
proof -
  let ?n = "length v"
  let ?z = "sum_list (map (\<lambda>j. sum_list (map (\<lambda>i. cnj (v ! i) * M ! i ! j) [0..<?n]) * v ! j) [0..<?n])"
  have vi: "nnr (v ! i)" if "i < ?n" for i using v that by (simp add: list_all_length)
  have "nnr ?z"
    by (intro nnr_sum_list) (auto simp: list_all_iff intro!: nnr_mult nnr_sum_list nnr_cnj vi e)
  moreover have "quad_form v M = Inr ?z"
    using M by (simp add: quad_form_def is_mat_def Let_def)
  ultimately show ?thesis by (auto simp: nnr_def)
qed

subsection \<open>Syndrome measurement\<close>

lemma z_measure:
  assumes v: "length v = 128" and b: "length bits = 7"
  shows "measure_pauli_operator v bits ''Z''
         = Inr (\<Sum>j<128. z_sign_rev (rev bits) j * (cmod (v ! j))\<^sup>2)"
proof -
  have n: "(2::nat) ^ length bits = 128" by (simp add: b)
  have m: "is_mat 128 128 (pauli_operator bits ''Z'')"
    using pauli_operator_is_mat[of bits "''Z''"] by (simp only: n)
  have "quad_form v (pauli_operator bits ''Z'')
      = Inr (complex_of_real (\<Sum>j<length v. z_sign_rev (rev bits) j * (cmod (v ! j))\<^sup>2))"
  proof (rule quad_form_diag)
    show "length (pauli_operator bits ''Z'') = length v"
      using m v by (simp add: is_mat_def)
    show "list_all (\<lambda>row. length row = length v) (pauli_operator bits ''Z'')"
      using m v by (simp add: is_mat_def)
    show "pauli_operator bits ''Z'' ! i ! j
        = (if i = j then complex_of_real (z_sign_rev (rev bits) i) else 0)"
      if "i < length v" "j < length v" for i j
      using that v by (intro pauli_z_entry) (simp_all add: n)
  qed
  then show ?thesis
    by (simp add: measure_pauli_operator_def v)
qed

lemma z_measure_uniform:
  assumes v: "length v = 128" and b: "length bits = 7"
    and nth: "\<And>j. j < 128 \<Longrightarrow> (cmod (v ! j))\<^sup>2 = (if j \<in> set xs then 1 / 8 else 0)"
    and xs: "distinct xs" "list_all (\<lambda>x. x < 128) xs"
  shows "measure_pauli_operator v bits ''Z'' = Inr ((\<Sum>j\<leftarrow>xs. z_sign_rev (rev bits) j) / 8)"
proof -
  have "(\<Sum>j<128. z_sign_rev (rev bits) j * (cmod (v ! j))\<^sup>2)
      = (\<Sum>j<128. if j \<in> set xs then z_sign_rev (rev bits) j / 8 else 0)"
    by (rule sum.cong) (simp_all add: nth)
  also have "\<dots> = (\<Sum>j\<leftarrow>xs. z_sign_rev (rev bits) j / 8)"
    using xs by (rule sum_support)
  also have "\<dots> = (\<Sum>j\<leftarrow>xs. z_sign_rev (rev bits) j) / 8"
    by (induction xs) (simp_all add: add_divide_distrib)
  finally show ?thesis
    by (simp only: z_measure[OF v b])
qed

lemma x_measure_nonneg:
  assumes v: "length v = 128" and b: "length bits = 7" and nn: "list_all nnr v"
  shows "\<exists>m. measure_pauli_operator v bits ''X'' = Inr m \<and> \<not> m < 0"
proof -
  have n: "(2::nat) ^ length bits = 128" by (simp add: b)
  have m: "is_mat (length v) (length v) (pauli_operator bits ''X'')"
    using pauli_operator_is_mat[of bits "''X''"] by (simp only: n v)
  have "\<exists>z. quad_form v (pauli_operator bits ''X'') = Inr z \<and> 0 \<le> Re z"
    using m nn
  proof (rule quad_form_nnr)
    show "nnr (pauli_operator bits ''X'' ! i ! j)" if "i < length v" "j < length v" for i j
      using that v by (intro pauli_x_entry) (simp_all add: n)
  qed
  then show ?thesis
    by (auto simp: measure_pauli_operator_def)
qed

lemma x_syndrome_nonneg:
  assumes v: "length v = 128" and nn: "list_all nnr v"
  shows "measure_stabilizers v x_stabilizers ''X'' = Inr [0, 0, 0]"
proof -
  obtain m1 where m1: "measure_pauli_operator v [1, 1, 1, 1, 0, 0, 0] ''X'' = Inr m1" "\<not> m1 < 0"
    using x_measure_nonneg[OF v _ nn, of "[1, 1, 1, 1, 0, 0, 0]"] by auto
  obtain m2 where m2: "measure_pauli_operator v [1, 1, 0, 0, 1, 1, 0] ''X'' = Inr m2" "\<not> m2 < 0"
    using x_measure_nonneg[OF v _ nn, of "[1, 1, 0, 0, 1, 1, 0]"] by auto
  obtain m3 where m3: "measure_pauli_operator v [1, 0, 1, 0, 1, 0, 1] ''X'' = Inr m3" "\<not> m3 < 0"
    using x_measure_nonneg[OF v _ nn, of "[1, 0, 1, 0, 1, 0, 1]"] by auto
  show ?thesis
    unfolding x_stabilizers_def
    by (simp only: measure_stabilizers.simps m1 m2 m3 sum.case if_False)
qed

lemma z_syndrome_uniform:
  assumes v: "length v = 128"
    and nth: "\<And>j. j < 128 \<Longrightarrow> (cmod (v ! j))\<^sup>2 = (if j \<in> set xs then 1 / 8 else 0)"
    and xs: "distinct xs" "list_all (\<lambda>x. x < 128) xs"
  shows "measure_stabilizers v z_stabilizers ''Z'' =
     Inr [if (\<Sum>j\<leftarrow>xs. z_sign_rev [0, 0, 0, 1, 1, 1, 1] j) < 0 then 1 else 0,
          if (\<Sum>j\<leftarrow>xs. z_sign_rev [0, 1, 1, 0, 0, 1, 1] j) < 0 then 1 else 0,
          if (\<Sum>j\<leftarrow>xs. z_sign_rev [1, 0, 1, 0, 1, 0, 1] j) < 0 then 1 else 0]"
proof -
  have z1: "measure_pauli_operator v [1, 1, 1, 1, 0, 0, 0] ''Z''
      = Inr ((\<Sum>j\<leftarrow>xs. z_sign_rev [0, 0, 0, 1, 1, 1, 1] j) / 8)"
    using z_measure_uniform[OF v _ nth xs, of "[1, 1, 1, 1, 0, 0, 0]"]
    by (simp del: z_sign_rev.simps)
  have z2: "measure_pauli_operator v [1, 1, 0, 0, 1, 1, 0] ''Z''
      = Inr ((\<Sum>j\<leftarrow>xs. z_sign_rev [0, 1, 1, 0, 0, 1, 1] j) / 8)"
    using z_measure_uniform[OF v _ nth xs, of "[1, 1, 0, 0, 1, 1, 0]"]
    by (simp del: z_sign_rev.simps)
  have z3: "measure_pauli_operator v [1, 0, 1, 0, 1, 0, 1] ''Z''
      = Inr ((\<Sum>j\<leftarrow>xs. z_sign_rev [1, 0, 1, 0, 1, 0, 1] j) / 8)"
    using z_measure_uniform[OF v _ nth xs, of "[1, 0, 1, 0, 1, 0, 1]"]
    by (simp del: z_sign_rev.simps)
  have neg: "(a / 8 < 0) = (a < 0)" for a :: real by simp
  show ?thesis
    unfolding z_stabilizers_def
    by (simp only: measure_stabilizers.simps z1 z2 z3 sum.case neg)
qed

lemma steane_state_zero_sq:
  "j < 128 \<Longrightarrow> (cmod (steane_state 1 0 ! j))\<^sup>2
     = (if j \<in> set [0, 85, 51, 102, 15, 90, 60, 105] then 1 / 8 else 0)"
  by (simp add: steane_state_nth steane_zero_codewords_def norm_divide power_divide)

lemma steane_state_zero_nnr: "list_all nnr (steane_state 1 0)"
  by (simp add: list_all_length steane_state_length steane_state_nth nnr_def)

lemma steane_zero_syndrome:
  "steane_measure_syndrome (steane_state 1 0) t =
     Inr \<lparr>syndrome = [0, 0, 0, 0, 0, 0], measured_qubits = [0..<7],
          measurement_time = t, confidence = 0.95\<rparr>"
proof -
  have z: "measure_stabilizers (steane_state 1 0) z_stabilizers ''Z'' = Inr [0, 0, 0]"
    by (subst z_syndrome_uniform[OF steane_state_length steane_state_zero_sq]) simp_all
  show ?thesis
    by (simp add: steane_measure_syndrome_def
        x_syndrome_nonneg[OF steane_state_length steane_state_zero_nnr] z)
qed

subsection \<open>A bit flip on the encoded zero state\<close>

lemma num_qubits_of_128: "length v = 128 \<Longrightarrow> num_qubits_of v = Inr 7"
  by (simp add: num_qubits_of_def)

lemma xor_less_128: "i < 128 \<Longrightarrow> i XOR 64 < (128::nat)"
proof -
  assume "i < 128"
  then have "take_bit 7 i = i" by (simp add: take_bit_nat_eq_self_iff)
  moreover have "take_bit 7 (64::nat) = 64" by (simp add: take_bit_nat_eq_self_iff)
  ultimately have "take_bit 7 (i XOR 64) = i XOR 64" by (simp add: take_bit_xor)
  then have "i XOR 64 < 2 ^ 7" by (simp only: take_bit_nat_eq_self_iff)
  then show ?thesis by simp
qed

lemma xor_eq_iff: "(a XOR k = c) \<longleftrightarrow> (a = c XOR k)" for a k c :: nat
  by (metis xor.assoc xor.right_neutral xor_self_eq)

lemma bit_flip_zero: "apply_bit_flip (steane_state 1 0) 0 = Inr flipped_zero"
  by (simp add: apply_bit_flip_def num_qubits_of_128 steane_state_length flipped_zero_def
      list_all_iff xor_less_128)

lemma flipped_zero_length: "length flipped_zero = 128"
  by (simp add: flipped_zero_def)

lemma flipped_zero_nth:
  "j < 128 \<Longrightarrow> flipped_zero ! j
     = (if j \<in> set [64, 21, 115, 38, 79, 26, 124, 41] then 1 / complex_of_real (sqrt 8) else 0)"
  by (simp add: flipped_zero_def steane_state_nth xor_less_128 steane_zero_codewords_def
      steane_one_codewords_def xor_eq_iff)

lemma flipped_zero_sq:
  "j < 128 \<Longrightarrow> (cmod (flipped_zero ! j))\<^sup>2
     = (if j \<in> set [64, 21, 115, 38, 79, 26, 124, 41] then 1 / 8 else 0)"
  by (simp add: flipped_zero_nth norm_divide power_divide)

lemma flipped_zero_nnr: "list_all nnr flipped_zero"
  by (simp add: list_all_length flipped_zero_length flipped_zero_nth nnr_def)

lemma flipped_zero_syndrome:
  "steane_measure_syndrome flipped_zero t =
     Inr \<lparr>syndrome = [0, 0, 0, 0, 1, 1], measured_qubits = [0..<7],
          measurement_time = t, confidence = 0.95\<rparr>"
proof -
  have z: "measure_stabilizers flipped_zero z_stabilizers ''Z'' = Inr [0, 1, 1]"
    by (subst z_syndrome_uniform[OF flipped_zero_length flipped_zero_sq]) simp_all
  show ?thesis
    by (simp add: steane_measure_syndrome_def
        x_syndrome_nonneg[OF flipped_zero_length flipped_zero_nnr] z)
qed

lemma flipped_zero_correct:
  "steane_correct_errors flipped_zero
     \<lparr>syndrome = [0, 0, 0, 0, 1, 1], measured_qubits = [0..<7],
      measurement_time = t, confidence = 0.95\<rparr> = Inr corrected_zero"
  by (simp add: steane_correct_errors_def build_syndrome_table_eq apply_pauli_correction_def
      apply_phase_flip_def num_qubits_of_128 flipped_zero_length corrected_zero_def)

lemma corrected_zero_length: "length corrected_zero = 128"
  by (simp add: corrected_zero_def)

lemma flipped_zero_phase_flip: "apply_phase_flip flipped_zero 4 = Inr corrected_zero"
  by (simp add: apply_phase_flip_def num_qubits_of_128 flipped_zero_length corrected_zero_def)

lemma flipped_zero_correct_z:
  "steane_correct_errors flipped_zero
     \<lparr>syndrome = [0, 0, 0, 0, 1, 1], measured_qubits = [0..<7],
      measurement_time = t, confidence = 0.95\<rparr> = apply_phase_flip flipped_zero 4"
  by (simp add: steane_correct_errors_def build_syndrome_table_eq apply_pauli_correction_def)

lemma corrected_zero_flipped: "corrected_zero \<noteq> flipped_zero"
proof
  assume "corrected_zero = flipped_zero"
  then have "corrected_zero ! 21 = flipped_zero ! 21" by simp
  then show False
    by (simp add: corrected_zero_def flipped_zero_nth bit_iff_odd)
qed

lemma corrected_zero_projection:
  "quad_form corrected_zero (get_logical_projector b) = Inr 0"
proof -
  have c: "cmod (corrected_zero ! j) = 0" if "j \<in> set (steane_codewords b)" for j
    using that
    by (cases "b = 0")
      (auto simp: steane_codewords_def steane_zero_codewords_def steane_one_codewords_def
        corrected_zero_def flipped_zero_nth)
  have "map (\<lambda>cw. 1 / 8 * (cmod (corrected_zero ! cw))\<^sup>2) (steane_codewords b)
      = map (\<lambda>cw. 0) (steane_codewords b)"
    by (rule map_cong) (simp_all add: c)
  then have "(\<Sum>cw\<leftarrow>steane_codewords b. 1 / 8 * (cmod (corrected_zero ! cw))\<^sup>2)
      = (\<Sum>cw\<leftarrow>steane_codewords b. 0)"
    by (simp only:)
  also have "\<dots> = 0" by simp
  finally have "(\<Sum>cw\<leftarrow>steane_codewords b. 1 / 8 * (cmod (corrected_zero ! cw))\<^sup>2) = 0" .
  then show ?thesis
    by (simp only: steane_projection[OF corrected_zero_length] of_real_0)
qed

lemma corrected_zero_decode: "steane_decode corrected_zero = Inr [1, 0]"
  unfolding steane_decode_def corrected_zero_projection sum.case by (simp add: np_sqrt_def)

lemma corrected_zero_differs: "corrected_zero \<noteq> steane_state 1 0"
proof
  assume "corrected_zero = steane_state 1 0"
  then have "corrected_zero ! 0 = steane_state 1 0 ! 0" by simp
  then show False
    by (simp add: corrected_zero_def flipped_zero_nth steane_state_nth steane_zero_codewords_def)
qed

text \<open>
  C2. The logical state \<open>[1, 0]\<close> is encoded with the Steane code, a bit flip is applied
  to qubit 0, the syndrome of the flipped state is measured and \<open>correct_errors\<close> is
  applied with it: the decoded result has fidelity 1 with \<open>[1, 0]\<close>. Step by step: the
  measured syndrome is \<open>[0, 0, 0, 0, 1, 1]\<close>; \<open>correct_errors\<close> answers it with a phase
  flip on qubit 4, which gives a state that is neither the flipped nor the encoded one;
  that state has no weight on either set of codeword indices, so \<open>decode\<close> returns its
  default \<open>[1, 0]\<close>.
\<close>

theorem steane_bit_flip_fidelity:
  "steane_encode [1, 0] = Inr (steane_state 1 0)
   \<and> apply_bit_flip (steane_state 1 0) 0 = Inr flipped_zero
   \<and> steane_measure_syndrome flipped_zero elapsed
       = Inr \<lparr>syndrome = [0, 0, 0, 0, 1, 1], measured_qubits = [0..<7],
              measurement_time = elapsed, confidence = 0.95\<rparr>
   \<and> steane_correct_errors flipped_zero
        \<lparr>syndrome = [0, 0, 0, 0, 1, 1], measured_qubits = [0..<7],
         measurement_time = elapsed, confidence = 0.95\<rparr>
       = apply_phase_flip flipped_zero 4
   \<and> apply_phase_flip flipped_zero 4 = Inr corrected_zero
   \<and> corrected_zero \<noteq> flipped_zero
   \<and> corrected_zero \<noteq> steane_state 1 0
   \<and> quad_form corrected_zero (get_logical_projector 0) = Inr 0
   \<and> quad_form corrected_zero (get_logical_projector 1) = Inr 0
   \<and> steane_decode corrected_zero = Inr [1, 0]
   \<and> and_then (steane_encode [1, 0]) (\<lambda>encoded.
        and_then (apply_bit_flip encoded 0) (\<lambda>noisy.
          and_then (steane_measure_syndrome noisy elapsed) (\<lambda>syn.
            and_then (steane_correct_errors noisy syn) (\<lambda>corrected_state.
              and_then (steane_decode corrected_state) (fidelity [1, 0])))))
       = Inr 1"
proof -
  have pipeline: "and_then (steane_encode [1, 0]) (\<lambda>encoded.
        and_then (apply_bit_flip encoded 0) (\<lambda>noisy.
          and_then (steane_measure_syndrome noisy elapsed) (\<lambda>syn.
            and_then (steane_correct_errors noisy syn) (\<lambda>corrected_state.
              and_then (steane_decode corrected_state) (fidelity [1, 0])))))
       = Inr 1"
    by (simp only: steane_encode_eq and_then_Inr bit_flip_zero flipped_zero_syndrome
        flipped_zero_correct corrected_zero_decode fidelity_pair) simp
  from steane_encode_eq[of 1 0] bit_flip_zero flipped_zero_syndrome[of elapsed]
    flipped_zero_correct_z[of elapsed] flipped_zero_phase_flip corrected_zero_flipped
    corrected_zero_differs corrected_zero_projection[of 0] corrected_zero_projection[of 1]
    corrected_zero_decode pipeline
  show ?thesis by (intro conjI)
qed

subsection \<open>Cycles without noise\<close>

lemma inject_errors_none:
  assumes "\<And>q. 0 \<le> draw_uniform (rng q)"
  shows "inject_errors 0 rng qs st errs = Inr (st, errs)"
proof (induction qs)
  case Nil
  show ?case by simp
next
  case (Cons q qs)
  have "\<not> draw_uniform (rng q) < 0" using assms[of q] by simp
  then show ?case using Cons.IH by simp
qed

lemma simulate_errors_none:
  assumes "\<And>q. 0 \<le> draw_uniform (rng q)" and "length v = 128"
  shows "simulate_errors v 0 rng = Inr (v, [])"
  by (simp add: simulate_errors_def num_qubits_of_128[OF assms(2)] inject_errors_none[OF assms(1)])

lemma steane_zero_correct:
  "steane_correct_errors (steane_state 1 0) (zero_syndrome t) = Inr (steane_state 1 0)"
  by (simp add: steane_correct_errors_def build_syndrome_table_eq zero_syndrome_def)

lemma steane_zero_syndrome': "steane_measure_syndrome (steane_state 1 0) t = Inr (zero_syndrome t)"
  unfolding zero_syndrome_def by (rule steane_zero_syndrome)

lemma steane_zero_correction:
  "perform_error_correction (steane_state 1 0) STEANE_7 t = Inr (steane_state 1 0, zero_syndrome t)"
  by (simp add: perform_error_correction_def steane_zero_syndrome' steane_zero_correct)

lemma steane_zero_decode: "decode_with STEANE_7 (steane_state 1 0) = Inr [1, 0]"
  using steane_roundtrip[of 1 0] by (simp add: decode_with_def)

lemma fidelity_zero: "fidelity [1, 0] [1, 0] = Inr 1"
  by (simp add: fidelity_pair)

lemma run_cycles_zero_noise:
  assumes "\<And>c q. 0 \<le> draw_uniform (rng c q)"
  shows "run_cycles [1, 0] STEANE_7 0 rng elapsed cs (steane_state 1 0) recs
         = Inr (steane_state 1 0, recs @ map clean_record cs)"
proof (induction cs arbitrary: recs)
  case Nil
  show ?case by simp
next
  case (Cons c cs)
  have s: "simulate_errors (steane_state 1 0) 0 (rng c) = Inr (steane_state 1 0, [])"
    by (rule simulate_errors_none) (simp_all add: assms steane_state_length)
  show ?case
    by (simp add: s steane_zero_correction steane_zero_decode fidelity_zero Cons.IH
        clean_record_def zero_syndrome_def)
qed

text \<open>
  C5. With every uniform draw in \<open>[0, 1)\<close> (so none is below the error rate 0), the full
  cycle on the logical state \<open>[1, 0]\<close> with the Steane code and 5 cycles returns final
  fidelity 1: no error is recorded in any cycle, the state carried through the cycles is
  the encoded state, and the final decode is \<open>[1, 0]\<close>.
\<close>

theorem steane_zero_noise_cycle:
  assumes "\<And>c q. 0 \<le> draw_uniform (rng c q)"
  shows "full_error_correction_cycle [1, 0] STEANE_7 0 5 rng elapsed =
     Inr \<lparr>initial_logical_state = [1, 0], code_type = STEANE_7, error_rate = 0,
          cycles = map clean_record [0..<5], final_logical_state = [1, 0], final_fidelity = 1\<rparr>
     \<and> run_cycles [1, 0] STEANE_7 0 rng elapsed [0..<5] (steane_state 1 0) []
         = Inr (steane_state 1 0, map clean_record [0..<5])"
  by (simp add: full_error_correction_cycle_def encode_logical_qubit_def steane_encode_eq
      run_cycles_zero_noise[OF assms] steane_zero_decode fidelity_zero del: upt_Suc)

theorem steane_zero_noise_cycle_witness:
  "(\<forall>c q. 0 \<le> draw_uniform ((\<lambda>c q. \<lparr>draw_uniform = 0, draw_kind = BIT_FLIP, draw_time = 0\<rparr>) c q))
   \<and> full_error_correction_cycle [1, 0] STEANE_7 0 5
       (\<lambda>c q. \<lparr>draw_uniform = 0, draw_kind = BIT_FLIP, draw_time = 0\<rparr>) (\<lambda>c. 0) =
     Inr \<lparr>initial_logical_state = [1, 0], code_type = STEANE_7, error_rate = 0,
          cycles = map clean_record [0..<5], final_logical_state = [1, 0], final_fidelity = 1\<rparr>"
  using steane_zero_noise_cycle[of "\<lambda>c q. \<lparr>draw_uniform = 0, draw_kind = BIT_FLIP, draw_time = 0\<rparr>" "\<lambda>c. 0"]
  by simp

subsection \<open>Unitary matrices preserve the norm\<close>

lemma unitary_iff:
  "unitary d U \<longleftrightarrow>
     is_mat d d U \<and> (\<forall>j<d. \<forall>k<d. (\<Sum>i<d. cnj (U ! i ! j) * U ! i ! k) = (if j = k then 1 else 0))"
  by (auto simp: unitary_def list_all_iff sum_list_upt_sum)

lemma unitaryD:
  assumes "unitary d U" "j < d" "k < d"
  shows "(\<Sum>i<d. cnj (U ! i ! j) * U ! i ! k) = (if j = k then 1 else 0)"
  using assms by (simp add: unitary_iff)

lemma unitary_is_mat: "unitary d U \<Longrightarrow> is_mat d d U"
  by (simp add: unitary_iff)

lemma row_times_vec:
  "length row = length v \<Longrightarrow> sum_list (map2 (*) row v) = (\<Sum>j<length v. row ! j * v ! j)"
proof -
  assume l: "length row = length v"
  have "sum_list (map2 (*) row v) = (\<Sum>j<length (map2 (*) row v). map2 (*) row v ! j)"
    using sum_list_sum_nth[of "map2 (*) row v"] by (simp add: atLeast0LessThan)
  also have "\<dots> = (\<Sum>j<length v. row ! j * v ! j)"
    using l by (intro sum.cong) simp_all
  finally show ?thesis .
qed

lemma matvec_nth:
  assumes "is_mat d d F" "length s = d" "0 < d"
  shows "matvec F s = Inr (map (\<lambda>i. \<Sum>j<d. F ! i ! j * s ! j) [0..<d])"
proof -
  have rows: "list_all (\<lambda>row. length row = length s) F" and ne: "F \<noteq> []" and len: "length F = d"
    using assms by (auto simp: is_mat_def)
  have "map (\<lambda>row. sum_list (map2 (*) row s)) F = map (\<lambda>i. \<Sum>j<d. F ! i ! j * s ! j) [0..<d]"
  proof (rule nth_equalityI)
    show "length (map (\<lambda>row. sum_list (map2 (*) row s)) F)
        = length (map (\<lambda>i. \<Sum>j<d. F ! i ! j * s ! j) [0..<d])"
      by (simp add: len)
    fix i assume "i < length (map (\<lambda>row. sum_list (map2 (*) row s)) F)"
    then have i: "i < d" by (simp add: len)
    then have "length (F ! i) = length s"
      using rows len by (simp add: list_all_length)
    then show "map (\<lambda>row. sum_list (map2 (*) row s)) F ! i
        = map (\<lambda>i. \<Sum>j<d. F ! i ! j * s ! j) [0..<d] ! i"
      using i len assms(2) by (simp add: row_times_vec)
  qed
  then show ?thesis using rows ne by (simp add: matvec_def)
qed

lemma normsq_complex:
  "complex_of_real (\<Sum>a\<leftarrow>v. (cmod a)\<^sup>2) = (\<Sum>i<length v. cnj (v ! i) * v ! i)"
proof -
  have "(\<Sum>a\<leftarrow>v. (cmod a)\<^sup>2) = (\<Sum>i<length v. (cmod (v ! i))\<^sup>2)"
    by (rule sum_list_map_nth)
  then have "complex_of_real (\<Sum>a\<leftarrow>v. (cmod a)\<^sup>2)
      = (\<Sum>i<length v. complex_of_real ((cmod (v ! i))\<^sup>2))"
    by (simp only: of_real_sum)
  also have "\<dots> = (\<Sum>i<length v. cnj (v ! i) * v ! i)"
    by (rule sum.cong) (simp_all add: complex_norm_square mult.commute del: of_real_power)
  finally show ?thesis .
qed

lemma unitary_normsq:
  assumes U: "unitary d F" and s: "length s = d"
  shows "(\<Sum>i<d. cnj (\<Sum>j<d. F ! i ! j * s ! j) * (\<Sum>k<d. F ! i ! k * s ! k))
         = (\<Sum>j<d. cnj (s ! j) * s ! j)"
proof -
  have "(\<Sum>i<d. cnj (\<Sum>j<d. F ! i ! j * s ! j) * (\<Sum>k<d. F ! i ! k * s ! k))
      = (\<Sum>i<d. \<Sum>j<d. \<Sum>k<d. cnj (F ! i ! j * s ! j) * (F ! i ! k * s ! k))"
    by (simp only: sum_product cnj_sum)
  also have "\<dots> = (\<Sum>i<d. \<Sum>j<d. \<Sum>k<d. cnj (s ! j) * s ! k * (cnj (F ! i ! j) * F ! i ! k))"
    by (intro sum.cong refl) (simp add: mult_ac)
  also have "\<dots> = (\<Sum>j<d. \<Sum>i<d. \<Sum>k<d. cnj (s ! j) * s ! k * (cnj (F ! i ! j) * F ! i ! k))"
    by (rule sum.swap)
  also have "\<dots> = (\<Sum>j<d. \<Sum>k<d. \<Sum>i<d. cnj (s ! j) * s ! k * (cnj (F ! i ! j) * F ! i ! k))"
    by (rule sum.cong[OF refl]) (rule sum.swap)
  also have "\<dots> = (\<Sum>j<d. \<Sum>k<d. cnj (s ! j) * s ! k * (\<Sum>i<d. cnj (F ! i ! j) * F ! i ! k))"
    by (simp add: sum_distrib_left)
  also have "\<dots> = (\<Sum>j<d. \<Sum>k<d. if j = k then cnj (s ! j) * s ! k else 0)"
    by (intro sum.cong refl) (simp add: unitaryD[OF U])
  also have "\<dots> = (\<Sum>j<d. cnj (s ! j) * s ! j)"
    by (intro sum.cong refl) (simp add: sum.delta')
  finally show ?thesis .
qed

lemma unitary_preserves_norm:
  assumes U: "unitary d F" and s: "length s = d" and d: "0 < d"
  shows "\<exists>s'. matvec F s = Inr s' \<and> length s' = d \<and> vnorm s' = vnorm s"
proof -
  let ?s' = "map (\<lambda>i. \<Sum>j<d. F ! i ! j * s ! j) [0..<d]"
  have m: "matvec F s = Inr ?s'"
    by (rule matvec_nth[OF unitary_is_mat[OF U] s d])
  have "complex_of_real (\<Sum>a\<leftarrow>?s'. (cmod a)\<^sup>2) = (\<Sum>i<d. cnj (?s' ! i) * ?s' ! i)"
    using normsq_complex[of ?s'] by simp
  also have "\<dots> = (\<Sum>i<d. cnj (\<Sum>j<d. F ! i ! j * s ! j) * (\<Sum>k<d. F ! i ! k * s ! k))"
    by (rule sum.cong) simp_all
  also have "\<dots> = (\<Sum>j<d. cnj (s ! j) * s ! j)"
    by (rule unitary_normsq[OF U s])
  also have "\<dots> = complex_of_real (\<Sum>a\<leftarrow>s. (cmod a)\<^sup>2)"
    using normsq_complex[of s] s by simp
  finally have "(\<Sum>a\<leftarrow>?s'. (cmod a)\<^sup>2) = (\<Sum>a\<leftarrow>s. (cmod a)\<^sup>2)"
    by (simp only: of_real_eq_iff)
  then have "vnorm ?s' = vnorm s" by (simp only: vnorm_def)
  with m show ?thesis by simp
qed

subsection \<open>Tensor products of unitary matrices\<close>

lemma eye_is_mat: "is_mat n n (eye n)"
  by (simp add: is_mat_def eye_def list_all_length)

lemma eye_nth: "i < n \<Longrightarrow> j < n \<Longrightarrow> eye n ! i ! j = (if i = j then 1 else 0)"
  by (simp add: eye_def)

lemma unitary_eye: "unitary n (eye n)"
proof -
  have "(\<Sum>i<n. cnj (eye n ! i ! j) * eye n ! i ! k) = (if j = k then 1 else 0)"
    if "j < n" "k < n" for j k
  proof -
    have "(\<Sum>i<n. cnj (eye n ! i ! j) * eye n ! i ! k)
        = (\<Sum>i<n. if i = j then (if j = k then 1 else 0) else 0)"
      using that by (intro sum.cong refl) (auto simp: eye_nth)
    also have "\<dots> = (if j = k then 1 else 0)"
      using that by (simp add: sum.delta)
    finally show ?thesis .
  qed
  then show ?thesis by (simp add: unitary_iff eye_is_mat)
qed

lemma sum_div_mod:
  fixes f :: "nat \<Rightarrow> nat \<Rightarrow> complex"
  assumes "0 < b"
  shows "(\<Sum>i<a * b. f (i div b) (i mod b)) = (\<Sum>x<a. \<Sum>y<b. f x y)"
proof -
  have "(\<Sum>x<a. \<Sum>y<b. f x y) = (\<Sum>(x, y)\<in>{..<a} \<times> {..<b}. f x y)"
    by (simp add: sum.cartesian_product)
  also have "\<dots> = (\<Sum>i<a * b. f (i div b) (i mod b))"
  proof (rule sum.reindex_bij_witness[where i = "\<lambda>i. (i div b, i mod b)" and j = "\<lambda>(x, y). x * b + y"])
    fix p assume "p \<in> {..<a} \<times> {..<b}"
    then obtain x y where p: "p = (x, y)" "x < a" "y < b" by auto
    show "(case p of (x, y) \<Rightarrow> x * b + y) \<in> {..<a * b}"
    proof -
      have "x * b + y < x * b + b" using p by simp
      also have "\<dots> = Suc x * b" by simp
      also have "\<dots> \<le> a * b" using p(2) by (intro mult_le_mono1) simp
      finally show ?thesis by (simp add: p)
    qed
    show "((case p of (x, y) \<Rightarrow> x * b + y) div b, (case p of (x, y) \<Rightarrow> x * b + y) mod b) = p"
      using p by simp
    show "f ((case p of (x, y) \<Rightarrow> x * b + y) div b) ((case p of (x, y) \<Rightarrow> x * b + y) mod b)
        = (case p of (x, y) \<Rightarrow> f x y)"
      using p by simp
  next
    fix i assume "i \<in> {..<a * b}"
    then have i: "i < a * b" by simp
    then have "i div b < a" using assms by (simp add: less_mult_imp_div_less)
    then show "(i div b, i mod b) \<in> {..<a} \<times> {..<b}" using assms by simp
    show "(case (i div b, i mod b) of (x, y) \<Rightarrow> x * b + y) = i" by simp
  qed
  finally show ?thesis by simp
qed

lemma div_mod_eq_iff:
  "0 < b \<Longrightarrow> (j div b = k div b \<and> j mod b = k mod b) \<longleftrightarrow> j = (k::nat)"
  by (metis div_mult_mod_eq)

lemma unitary_kron:
  assumes A: "unitary dA A" and B: "unitary dB B" and pos: "0 < dA" "0 < dB"
  shows "unitary (dA * dB) (kron A B)"
proof -
  note mA = unitary_is_mat[OF A] and mB = unitary_is_mat[OF B]
  have m: "is_mat (dA * dB) (dA * dB) (kron A B)"
    by (rule kron_is_mat[OF mA mB pos])
  have "(\<Sum>i<dA * dB. cnj (kron A B ! i ! j) * kron A B ! i ! k) = (if j = k then 1 else 0)"
    if j: "j < dA * dB" and k: "k < dA * dB" for j k
  proof -
    have jd: "j div dB < dA" "j mod dB < dB" and kd: "k div dB < dA" "k mod dB < dB"
      using j k pos by (simp_all add: less_mult_imp_div_less)
    let ?f = "\<lambda>x y. cnj (A ! x ! (j div dB) * B ! y ! (j mod dB))
                     * (A ! x ! (k div dB) * B ! y ! (k mod dB))"
    have "(\<Sum>i<dA * dB. cnj (kron A B ! i ! j) * kron A B ! i ! k)
        = (\<Sum>i<dA * dB. ?f (i div dB) (i mod dB))"
      using j k by (intro sum.cong refl) (simp add: kron_nth[OF mA mB pos])
    also have "\<dots> = (\<Sum>x<dA. \<Sum>y<dB. ?f x y)"
      by (rule sum_div_mod[OF pos(2)])
    also have "\<dots> = (\<Sum>x<dA. \<Sum>y<dB. (cnj (A ! x ! (j div dB)) * A ! x ! (k div dB))
                        * (cnj (B ! y ! (j mod dB)) * B ! y ! (k mod dB)))"
      by (intro sum.cong refl) (simp add: mult_ac)
    also have "\<dots> = (\<Sum>x<dA. cnj (A ! x ! (j div dB)) * A ! x ! (k div dB))
                   * (\<Sum>y<dB. cnj (B ! y ! (j mod dB)) * B ! y ! (k mod dB))"
      by (simp only: sum_product)
    also have "\<dots> = (if j div dB = k div dB then 1 else 0) * (if j mod dB = k mod dB then 1 else 0)"
      by (simp only: unitaryD[OF A jd(1) kd(1)] unitaryD[OF B jd(2) kd(2)])
    also have "\<dots> = (if j = k then 1 else 0)"
      using div_mod_eq_iff[OF pos(2), of j k] by auto
    finally show ?thesis .
  qed
  with m show ?thesis by (simp add: unitary_iff)
qed

lemma fold_kron_unitary:
  assumes "unitary d g" "0 < d" "list_all (\<lambda>h. unitary (length h) h \<and> 0 < length h) rest"
  shows "unitary (d * prod_list (map length rest)) (fold (\<lambda>gate result. kron result gate) rest g)"
  using assms
proof (induction rest arbitrary: g d)
  case Nil
  then show ?case by simp
next
  case (Cons h rest)
  have h: "unitary (length h) h" "0 < length h" and r: "list_all (\<lambda>h. unitary (length h) h \<and> 0 < length h) rest"
    using Cons.prems(3) by simp_all
  have "unitary (d * length h) (kron g h)"
    by (rule unitary_kron[OF Cons.prems(1) h(1) Cons.prems(2) h(2)])
  from Cons.IH[OF this _ r] Cons.prems(2) h(2) show ?case
    by (simp add: mult.assoc)
qed

lemma unitary_length: "unitary d U \<Longrightarrow> length U = d"
  by (simp add: unitary_iff is_mat_def)

lemma tensor_product_unitary:
  assumes "list_all (\<lambda>h. unitary (length h) h \<and> 0 < length h) gs"
  shows "unitary (prod_list (map length gs)) (tensor_product_gates gs)"
proof (cases gs)
  case Nil
  then show ?thesis using unitary_eye[of 1] by (simp add: tensor_product_gates_def)
next
  case (Cons g rest)
  with assms have "unitary (length g) g" "0 < length g"
    "list_all (\<lambda>h. unitary (length h) h \<and> 0 < length h) rest" by simp_all
  from fold_kron_unitary[OF this] Cons show ?thesis
    by (simp add: tensor_product_gates_def)
qed

subsection \<open>The single-qubit and the adjacent two-qubit expansion\<close>

lemma length_eye: "length (eye n) = n"
  by (simp add: eye_def)

lemma single_qubit_unitary:
  assumes "unitary 2 gate"
  shows "unitary (2 ^ n) (single_qubit_full_matrix gate target n)"
proof -
  let ?gs = "map (\<lambda>i. if int i = target then gate else eye 2) [0..<n]"
  have len: "length h = 2" and un: "unitary (length h) h" if "h \<in> set ?gs" for h
    using that assms unitary_length[OF assms] unitary_eye[of 2] by (auto simp: length_eye)
  have "list_all (\<lambda>h. unitary (length h) h \<and> 0 < length h) ?gs"
    unfolding list_all_iff using len un by auto
  then have "unitary (prod_list (map length ?gs)) (tensor_product_gates ?gs)"
    by (rule tensor_product_unitary)
  moreover have "map length ?gs = replicate n 2"
    using len by (intro replicate_eqI) auto
  ultimately show ?thesis
    by (simp add: single_qubit_full_matrix_def prod_list_replicate)
qed

lemma prod_list_concat_map:
  "prod_list (map length (concat (map f xs)))
     = prod_list (map (\<lambda>i. prod_list (map length (f i))) xs)"
  for f :: "nat \<Rightarrow> cmat list"
  by (induction xs) simp_all

lemma prod_adjacent:
  "prod_list (map (\<lambda>i. if i = m then 4 else if i = Suc m then 1 else (2::nat)) [0..<n])
     = (if n \<le> m then 2 ^ n else if n = Suc m then 2 ^ Suc n else 2 ^ n)"
proof (induction n)
  case 0
  show ?case by simp
next
  case (Suc n)
  show ?case
  proof (cases "n < m")
    case True
    with Suc show ?thesis by simp
  next
    case False
    show ?thesis
    proof (cases "n = m")
      case True
      with Suc show ?thesis by simp
    next
      case nm: False
      show ?thesis
      proof (cases "n = Suc m")
        case True
        with Suc show ?thesis by simp
      next
        case False
        with nm \<open>\<not> n < m\<close> Suc show ?thesis by simp
      qed
    qed
  qed
qed

lemma two_qubit_adjacent_unitary:
  assumes U: "unitary 4 gate"
    and adj: "\<bar>t0 - t1\<bar> = 1"
    and rng: "0 \<le> t0" "t0 < int n" "0 \<le> t1" "t1 < int n"
  shows "\<exists>F. two_qubit_full_matrix gate [t0, t1] n = Inr F \<and> unitary (2 ^ n) F"
proof -
  define m where "m = nat (min t0 t1)"
  have mn: "min t0 t1 = int m" and mx: "max t0 t1 = int (Suc m)" and mlt: "Suc m < n"
    using adj rng by (auto simp: m_def min_def max_def)
  let ?f = "\<lambda>i. if int i = min t0 t1 then [gate]
                  else if int i = max t0 t1 then [] else [eye 2]"
  let ?gs = "concat (map ?f [0..<n])"
  have ok: "unitary (length h) h \<and> 0 < length h" if "h \<in> set ?gs" for h
  proof -
    from that have "h = gate \<or> h = eye 2" by (auto split: if_splits)
    then show ?thesis
      using U unitary_length[OF U] unitary_eye[of 2] length_eye[of 2] by auto
  qed
  have "list_all (\<lambda>h. unitary (length h) h \<and> 0 < length h) ?gs"
    unfolding list_all_iff using ok by blast
  then have "unitary (prod_list (map length ?gs)) (tensor_product_gates ?gs)"
    by (rule tensor_product_unitary)
  moreover have "prod_list (map length ?gs) = 2 ^ n"
  proof -
    have "prod_list (map length ?gs) = prod_list (map (\<lambda>i. prod_list (map length (?f i))) [0..<n])"
      by (rule prod_list_concat_map)
    also have "(\<lambda>i. prod_list (map length (?f i)))
        = (\<lambda>i. if i = m then 4 else if i = Suc m then 1 else (2::nat))"
      using unitary_length[OF U] by (auto simp: fun_eq_iff mn mx length_eye)
    also have "prod_list (map (\<lambda>i. if i = m then 4 else if i = Suc m then 1 else (2::nat)) [0..<n])
        = 2 ^ n"
      using mlt by (simp add: prod_adjacent)
    finally show ?thesis .
  qed
  moreover have "two_qubit_full_matrix gate [t0, t1] n = Inr (tensor_product_gates ?gs)"
    using adj by (simp add: two_qubit_full_matrix_def cong: if_cong)
  ultimately show ?thesis by simp
qed

subsection \<open>The general multi-qubit expansion\<close>

lemma target_index_horner:
  "target_index pos i = horner_sum of_bool 2 (map (\<lambda>m. bit i (pos ! m)) [0..<length pos])"
proof -
  let ?bs = "map (\<lambda>m. bit i (pos ! m)) [0..<length pos]"
  have "(horner_sum of_bool 2 ?bs :: nat) = (\<Sum>m = 0..<length ?bs. of_bool (?bs ! m) * 2 ^ m)"
    by (rule horner_sum_eq_sum)
  also have "\<dots> = (\<Sum>m<length pos. (if bit i (pos ! m) then 1 else 0) * 2 ^ m)"
    unfolding atLeast0LessThan by (rule sum.cong) (simp_all add: of_bool_def)
  finally show ?thesis
    by (simp add: target_index_def sum_list_upt_sum)
qed

lemma bit_target_index: "bit (target_index pos i) m \<longleftrightarrow> m < length pos \<and> bit i (pos ! m)"
  by (auto simp: target_index_horner bit_horner_sum_bit_iff)

lemma target_index_less: "target_index pos i < 2 ^ length pos"
  using horner_sum_of_bool_2_less[of "map (\<lambda>m. bit i (pos ! m)) [0..<length pos]"]
  by (simp add: target_index_horner)

lemma bit_mix_bits:
  "bit (mix_bits n pos j a) b \<longleftrightarrow>
     b < n \<and> (if b \<in> set pos then (\<exists>m<length pos. pos ! m = b \<and> bit a m) else bit j b)"
  by (auto simp: mix_bits_def bit_horner_sum_bit_iff)

lemma mix_bits_less: "mix_bits n pos j a < 2 ^ n"
  using horner_sum_of_bool_2_less[of "map (\<lambda>b. if b \<in> set pos
      then (\<exists>m<length pos. pos ! m = b \<and> bit a m) else bit j b) [0..<n]"]
  by (simp add: mix_bits_def)

lemma same_rest_iff:
  "same_rest n pos i j \<longleftrightarrow> (\<forall>b<n. b \<notin> set pos \<longrightarrow> bit i b = bit j b)"
  by (auto simp: same_rest_def list_all_iff)

lemma same_rest_refl: "same_rest n pos i i"
  by (simp add: same_rest_iff)

lemma same_rest_sym: "same_rest n pos i j \<Longrightarrow> same_rest n pos j i"
  by (simp add: same_rest_iff)

lemma same_rest_trans: "same_rest n pos i j \<Longrightarrow> same_rest n pos j k \<Longrightarrow> same_rest n pos i k"
  by (simp add: same_rest_iff)

lemma bit_less_exp: "i < 2 ^ n \<Longrightarrow> bit i b \<Longrightarrow> b < n" for i :: nat
proof -
  assume "i < 2 ^ n" "bit i b"
  then have "bit (take_bit n i) b" by (simp add: take_bit_nat_eq_self)
  then show "b < n" by (simp add: bit_take_bit_iff)
qed

lemma same_rest_mix: "same_rest n pos (mix_bits n pos j a) j"
  by (simp add: same_rest_iff bit_mix_bits)

lemma target_index_mix:
  assumes d: "distinct pos" and r: "list_all (\<lambda>p. p < n) pos" and a: "a < 2 ^ length pos"
  shows "target_index pos (mix_bits n pos j a) = a"
proof (rule bit_eqI)
  fix m
  show "bit (target_index pos (mix_bits n pos j a)) m = bit a m"
  proof (cases "m < length pos")
    case True
    then have p: "pos ! m \<in> set pos" "pos ! m < n"
      using r by (simp_all add: list_all_length)
    have "(\<exists>m'<length pos. pos ! m' = pos ! m \<and> bit a m') \<longleftrightarrow> bit a m"
      using True d by (auto simp: nth_eq_iff_index_eq)
    then show ?thesis
      using True p by (simp add: bit_target_index bit_mix_bits)
  next
    case False
    then have "\<not> bit a m" using bit_less_exp[OF a, of m] by auto
    with False show ?thesis by (simp add: bit_target_index)
  qed
qed

lemma mix_target_index:
  assumes d: "distinct pos" and i: "i < 2 ^ n" and s: "same_rest n pos i j"
  shows "mix_bits n pos j (target_index pos i) = i"
proof (rule bit_eqI)
  fix b
  show "bit (mix_bits n pos j (target_index pos i)) b = bit i b"
  proof (cases "b < n")
    case True
    show ?thesis
    proof (cases "b \<in> set pos")
      case True
      then obtain m where m: "m < length pos" "pos ! m = b" by (auto simp: in_set_conv_nth)
      have "(\<exists>m'<length pos. pos ! m' = b \<and> bit (target_index pos i) m') \<longleftrightarrow> bit i b"
        using m by (auto simp: bit_target_index)
      then show ?thesis using True \<open>b < n\<close> by (simp add: bit_mix_bits)
    next
      case False
      then show ?thesis using True s by (simp add: bit_mix_bits same_rest_iff)
    qed
  next
    case False
    then have "\<not> bit i b" using bit_less_exp[OF i, of b] by auto
    with False show ?thesis by (simp add: bit_mix_bits)
  qed
qed

lemma target_index_inj:
  assumes d: "distinct pos" and j: "j < 2 ^ n" "j' < 2 ^ n" and s: "same_rest n pos j j'"
    and e: "target_index pos j = target_index pos j'"
  shows "j = j'"
proof -
  have "j = mix_bits n pos j' (target_index pos j)"
    using mix_target_index[OF d j(1) s] by simp
  also have "\<dots> = mix_bits n pos j' (target_index pos j')" by (simp only: e)
  also have "\<dots> = j'" by (rule mix_target_index[OF d j(2) same_rest_refl])
  finally show ?thesis .
qed

lemma sum_same_rest:
  fixes g :: "nat \<Rightarrow> complex"
  assumes d: "distinct pos" and r: "list_all (\<lambda>p. p < n) pos"
  shows "(\<Sum>i<2 ^ n. if same_rest n pos i j then g (target_index pos i) else 0)
         = (\<Sum>a<2 ^ length pos. g a)"
proof -
  have "(\<Sum>i<2 ^ n. if same_rest n pos i j then g (target_index pos i) else 0)
      = (\<Sum>i\<in>{i. i < 2 ^ n \<and> same_rest n pos i j}. g (target_index pos i))"
    by (intro sum.mono_neutral_cong_right) auto
  also have "\<dots> = (\<Sum>a<2 ^ length pos. g a)"
  proof (rule sum.reindex_bij_witness[where i = "mix_bits n pos j" and j = "target_index pos"])
    fix i assume "i \<in> {i. i < 2 ^ n \<and> same_rest n pos i j}"
    then have i: "i < 2 ^ n" "same_rest n pos i j" by simp_all
    show "mix_bits n pos j (target_index pos i) = i" by (rule mix_target_index[OF d i])
    show "target_index pos i \<in> {..<2 ^ length pos}" by (simp add: target_index_less)
    show "g (target_index pos i) = g (target_index pos i)" by (rule refl)
  next
    fix a :: nat assume "a \<in> {..<2 ^ length pos}"
    then have a: "a < 2 ^ length pos" by simp
    show "target_index pos (mix_bits n pos j a) = a" by (rule target_index_mix[OF d r a])
    show "mix_bits n pos j a \<in> {i. i < 2 ^ n \<and> same_rest n pos i j}"
      by (simp add: mix_bits_less same_rest_mix)
  qed
  finally show ?thesis .
qed

lemma multi_unitary:
  assumes U: "unitary (2 ^ length pos) G"
    and d: "distinct pos" and r: "list_all (\<lambda>p. p < n) pos"
  shows "unitary (2 ^ n)
     (map (\<lambda>i. map (\<lambda>j. if same_rest n pos i j then G ! target_index pos i ! target_index pos j
                         else if i = j then 1 else 0) [0..<2 ^ n]) [0..<2 ^ n])"
    (is "unitary _ ?F")
proof -
  let ?N = "2 ^ n :: nat"
  let ?t = "target_index pos"
  have m: "is_mat ?N ?N ?F" by (simp add: is_mat_def list_all_length)
  have F: "?F ! i ! j = (if same_rest n pos i j then G ! ?t i ! ?t j else 0)"
    if "i < ?N" "j < ?N" for i j
    using that by (auto simp: same_rest_refl)
  have "(\<Sum>i<?N. cnj (?F ! i ! j) * ?F ! i ! k) = (if j = k then 1 else 0)"
    if j: "j < ?N" and k: "k < ?N" for j k
  proof (cases "same_rest n pos j k")
    case True
    have eq: "same_rest n pos i k \<longleftrightarrow> same_rest n pos i j" for i
      using True same_rest_trans same_rest_sym by blast
    have "(\<Sum>i<?N. cnj (?F ! i ! j) * ?F ! i ! k)
        = (\<Sum>i<?N. if same_rest n pos i j then cnj (G ! ?t i ! ?t j) * G ! ?t i ! ?t k else 0)"
      using j k by (intro sum.cong refl) (simp add: F eq same_rest_refl)
    also have "\<dots> = (\<Sum>a<2 ^ length pos. cnj (G ! a ! ?t j) * G ! a ! ?t k)"
      by (rule sum_same_rest[OF d r])
    also have "\<dots> = (if ?t j = ?t k then 1 else 0)"
      by (rule unitaryD[OF U target_index_less target_index_less])
    also have "\<dots> = (if j = k then 1 else 0)"
      using target_index_inj[OF d j k True] by auto
    finally show ?thesis .
  next
    case False
    then have ne: "j \<noteq> k" using same_rest_refl by auto
    have no: "\<not> (same_rest n pos i j \<and> same_rest n pos i k)" for i
      using False same_rest_trans same_rest_sym by blast
    have "cnj (?F ! i ! j) * ?F ! i ! k = 0" if i: "i < ?N" for i
    proof (cases "same_rest n pos i j")
      case True
      then have "\<not> same_rest n pos i k" using no by blast
      then show ?thesis by (simp only: F[OF i k] if_False mult_zero_right)
    next
      case False
      then show ?thesis by (simp only: F[OF i j] if_False complex_cnj_zero mult_zero_left)
    qed
    then have "(\<Sum>i<?N. cnj (?F ! i ! j) * ?F ! i ! k) = (\<Sum>i<?N. 0)"
      by (intro sum.cong refl) simp
    with ne show ?thesis by simp
  qed
  with m show ?thesis by (simp add: unitary_iff)
qed

subsection \<open>Applying a gate\<close>

lemma multi_qubit_unitary:
  assumes U: "unitary (2 ^ length targets) gate"
    and d: "distinct targets"
    and r: "list_all (\<lambda>t. 0 \<le> t \<and> t < int n) targets"
  shows "\<exists>F. multi_qubit_full_matrix gate targets n = Inr F \<and> unitary (2 ^ n) F"
proof -
  define pos where "pos = map nat targets"
  have t: "0 \<le> t" "t < int n" if "t \<in> set targets" for t
    using r that by (auto simp: list_all_iff)
  have pos: "map (\<lambda>t. nat (if t < 0 then int n + t else t)) targets = pos"
    unfolding pos_def
  proof (intro map_cong refl)
    fix x assume "x \<in> set targets"
    then have "\<not> x < 0" using t(1)[of x] by simp
    then show "nat (if x < 0 then int n + x else x) = nat x" by simp
  qed
  have len: "length pos = length targets" by (simp add: pos_def)
  have "inj_on nat (set targets)"
  proof (rule inj_onI)
    fix x y assume xy: "x \<in> set targets" "y \<in> set targets" "nat x = nat y"
    then have "int (nat x) = int (nat y)" by simp
    then show "x = y" using t(1)[OF xy(1)] t(1)[OF xy(2)] by simp
  qed
  then have dp: "distinct pos"
    unfolding pos_def distinct_map using d by simp
  have rp: "list_all (\<lambda>p. p < n) pos"
    unfolding pos_def list_all_iff
  proof
    fix p assume "p \<in> set (map nat targets)"
    then obtain x where x: "x \<in> set targets" "p = nat x" by auto
    show "p < n" using t(1)[OF x(1)] t(2)[OF x(1)] x(2) by simp
  qed
  have mem: "int b \<in> set targets \<longleftrightarrow> b \<in> set pos" for b
    unfolding pos_def using t by force
  have same: "list_all (\<lambda>k. int k \<in> set targets \<or> bit i k = bit j k) [0..<n] = same_rest n pos i j"
    for i j by (simp add: same_rest_def mem)
  have sub: "sum_list (map (\<lambda>k. (if bit i (pos ! k) then 1 else 0) * 2 ^ k) [0..<length targets])
      = target_index pos i" for i
    by (simp add: target_index_def len)
  have U': "unitary (2 ^ length pos) gate" using U by (simp add: len)
  have g: "nrows gate = 2 ^ length pos" "ncols gate = 2 ^ length pos"
    using nrows_is_mat[OF unitary_is_mat[OF U']] ncols_is_mat[OF unitary_is_mat[OF U']] by simp_all
  have r1: "list_all (\<lambda>t. - int n \<le> t \<and> t < int n) targets"
    unfolding list_all_iff
  proof
    fix x assume "x \<in> set targets"
    from t(1)[OF this] t(2)[OF this] show "- int n \<le> x \<and> x < int n" by simp
  qed
  have r2: "list_all (\<lambda>i. target_index pos i < nrows gate \<and> target_index pos i < ncols gate)
      [0..<2 ^ n]"
    by (simp add: list_all_iff g target_index_less)
  have "multi_qubit_full_matrix gate targets n =
      Inr (map (\<lambda>i. map (\<lambda>j. if same_rest n pos i j
                                then gate ! target_index pos i ! target_index pos j
                                else if i = j then 1 else 0) [0..<2 ^ n]) [0..<2 ^ n])"
    unfolding multi_qubit_full_matrix_def Let_def pos same sub
    using r1 r2 by simp
  with multi_unitary[OF U' dp rp] show ?thesis by simp
qed

lemma build_full_gate_unitary:
  assumes U: "unitary (2 ^ length targets) gate"
    and d: "distinct targets"
    and r: "list_all (\<lambda>t. 0 \<le> t \<and> t < int n) targets"
  shows "\<exists>F. build_full_gate_matrix gate targets n = Inr F \<and> unitary (2 ^ n) F"
proof (cases "length targets = 1")
  case True
  then have "unitary 2 gate" using U by simp
  then show ?thesis
    using True by (simp add: build_full_gate_matrix_def single_qubit_unitary)
next
  case False
  show ?thesis
  proof (cases "length targets = 2")
    case True
    then obtain t0 t1 where ts: "targets = [t0, t1]"
      by (cases targets; cases "tl targets") auto
    show ?thesis
    proof (cases "\<bar>t0 - t1\<bar> = 1")
      case True
      have "unitary 4 gate" using U ts by simp
      from two_qubit_adjacent_unitary[OF this True] r ts show ?thesis
        by (simp add: build_full_gate_matrix_def)
    next
      case False
      then have "two_qubit_full_matrix gate targets n = multi_qubit_full_matrix gate targets n"
        by (simp add: two_qubit_full_matrix_def ts)
      with multi_qubit_unitary[OF U d r] ts show ?thesis
        by (simp add: build_full_gate_matrix_def)
    qed
  next
    case False
    with \<open>length targets \<noteq> 1\<close> multi_qubit_unitary[OF U d r] show ?thesis
      by (simp add: build_full_gate_matrix_def)
  qed
qed

text \<open>
  C4, amended. Let the resolved matrix of a gate be unitary of side \<open>2^k\<close> for its
  \<open>k\<close> target qubits, the targets pairwise distinct and within the circuit, and the
  state of \<open>2^n\<close> amplitudes. Then applying the gate returns a state of the same
  Euclidean norm, on each of the three expansion paths.
\<close>

theorem apply_gate_preserves_norm:
  assumes "get_gate_matrix (gate_type g) (parameters g) = Some U"
    and "unitary (2 ^ length (qubits g)) U"
    and "list_all (\<lambda>t. 0 \<le> t \<and> t < int (num_qubits c)) (qubits g)"
    and "distinct (qubits g)"
    and "length (state_vector c) = 2 ^ num_qubits c"
  shows "\<exists>c'. apply_gate_to_circuit c g = Inr c'
           \<and> vnorm (state_vector c') = vnorm (state_vector c)"
proof -
  obtain F where F: "build_full_gate_matrix U (qubits g) (num_qubits c) = Inr F"
      "unitary (2 ^ num_qubits c) F"
    using build_full_gate_unitary[OF assms(2,4,3)] by blast
  obtain s' where s': "matvec F (state_vector c) = Inr s'" "vnorm s' = vnorm (state_vector c)"
    using unitary_preserves_norm[OF F(2) assms(5)] by auto
  show ?thesis
    by (simp add: apply_gate_to_circuit_def assms(1) F(1) s')
qed

lemma unitary_cnot: "unitary 4 cnot_matrix"
  by (simp add: unitary_def is_mat_def cnot_matrix_def upt_rec)

lemma get_cnot: "get_gate_matrix CNOT None = Some cnot_matrix"
  by (simp add: get_gate_matrix_def cnot_matrix_def)

theorem apply_gate_preserves_norm_witness:
  "get_gate_matrix (gate_type \<lparr>gate_type = CNOT, qubits = [0, 2], parameters = None, matrix = None\<rparr>)
      (parameters \<lparr>gate_type = CNOT, qubits = [0, 2], parameters = None, matrix = None\<rparr>)
     = Some cnot_matrix
   \<and> unitary (2 ^ length (qubits \<lparr>gate_type = CNOT, qubits = [0, 2], parameters = None,
         matrix = None\<rparr>)) cnot_matrix
   \<and> list_all (\<lambda>t. 0 \<le> t \<and> t < int (num_qubits (new_circuit 3)))
        (qubits \<lparr>gate_type = CNOT, qubits = [0, 2], parameters = None, matrix = None\<rparr>)
   \<and> distinct (qubits \<lparr>gate_type = CNOT, qubits = [0, 2], parameters = None, matrix = None\<rparr>)
   \<and> length (state_vector (new_circuit 3)) = 2 ^ num_qubits (new_circuit 3)
   \<and> (\<exists>c'. apply_gate_to_circuit (new_circuit 3)
              \<lparr>gate_type = CNOT, qubits = [0, 2], parameters = None, matrix = None\<rparr> = Inr c'
           \<and> vnorm (state_vector c') = vnorm (state_vector (new_circuit 3)))"
proof -
  let ?g = "\<lparr>gate_type = CNOT, qubits = [0, 2], parameters = None, matrix = None\<rparr>"
  have h: "get_gate_matrix (gate_type ?g) (parameters ?g) = Some cnot_matrix"
    "unitary (2 ^ length (qubits ?g)) cnot_matrix"
    "list_all (\<lambda>t. 0 \<le> t \<and> t < int (num_qubits (new_circuit 3))) (qubits ?g)"
    "distinct (qubits ?g)"
    "length (state_vector (new_circuit 3)) = 2 ^ num_qubits (new_circuit 3)"
    using unitary_cnot by (simp_all add: get_cnot new_circuit_def)
  from apply_gate_preserves_norm[OF h] h show ?thesis by blast
qed

text \<open>
  C4, as the claim states it, fails when a target is repeated: the CNOT matrix is
  unitary of side \<open>2^2\<close>, the targets \<open>[0, 0]\<close> are within a circuit of one qubit, and the
  general path expands it to \<open>[[1, 0], [0, 0]]\<close>, which sends the state \<open>[0, 1]\<close> of
  norm 1 to \<open>[0, 0]\<close>.
\<close>

theorem apply_gate_repeated_target_shrinks:
  "get_gate_matrix CNOT None = Some cnot_matrix
   \<and> unitary (2 ^ length [0, 0 :: int]) cnot_matrix
   \<and> list_all (\<lambda>t. 0 \<le> t \<and> t < int 1) [0, 0]
   \<and> apply_gate_to_circuit \<lparr>num_qubits = 1, gates = [], state_vector = [0, 1]\<rparr>
        \<lparr>gate_type = CNOT, qubits = [0, 0], parameters = None, matrix = None\<rparr>
      = Inr \<lparr>num_qubits = 1, gates = [], state_vector = [0, 0]\<rparr>
   \<and> vnorm [0, 1] = 1 \<and> vnorm [0, 0] = 0"
proof -
  have m: "multi_qubit_full_matrix cnot_matrix [0, 0] 1 = Inr [[1, 0], [0, 0]]"
    by (simp add: multi_qubit_full_matrix_def Let_def upt_rec nrows_def ncols_def cnot_matrix_def
        bit_0)
  have m': "multi_qubit_full_matrix cnot_matrix [0, 0] (Suc 0) = Inr [[1, 0], [0, 0]]"
    using m by simp
  have b: "build_full_gate_matrix cnot_matrix [0, 0] (Suc 0) = Inr [[1, 0], [0, 0]]"
    by (simp add: build_full_gate_matrix_def two_qubit_full_matrix_def m')
  have a: "apply_gate_to_circuit \<lparr>num_qubits = 1, gates = [], state_vector = [0, 1]\<rparr>
        \<lparr>gate_type = CNOT, qubits = [0, 0], parameters = None, matrix = None\<rparr>
      = Inr \<lparr>num_qubits = 1, gates = [], state_vector = [0, 0]\<rparr>"
    by (simp add: apply_gate_to_circuit_def get_cnot b matvec_def)
  have u: "unitary (2 ^ length [0, 0 :: int]) cnot_matrix"
    using unitary_cnot by simp
  have v: "vnorm [0, 1] = 1" "vnorm [0, 0] = 0"
    by (simp_all add: vnorm_def)
  have l: "list_all (\<lambda>t. 0 \<le> t \<and> t < int 1) [0, 0]" by simp
  from get_cnot u l a v show ?thesis by (intro conjI)
qed

end
